theory Spec2Isabelle
  imports Main "HOL-Library.Word"
begin

section \<open>Python values\<close>

text \<open>
  The converter is a Python script; its metadata functions inspect their arguments with
  \<^verbatim>\<open>isinstance\<close>. The values they can meet are modelled by one datatype.
  A Python \<^verbatim>\<open>str\<close> is a sequence of code points (lone surrogates included), a
  \<^verbatim>\<open>bytes\<close> object is a sequence of octets (a HOL \<^typ>\<open>string\<close>), a float is its
  IEEE-754 bit pattern, a dict is its list of items in insertion order. Dict keys are the
  two kinds the script uses: integers (tag ids) and text (group and info names).
  \<open>PObj s\<close> stands for an object of any other type: it has none of the methods used
  here, default truthiness, is equal to no integer, and \<^verbatim>\<open>str()\<close> renders it as \<open>s\<close>.
\<close>

type_synonym ustr = "nat list"

type_synonym bytes = string

datatype pykey = KInt int | KStr ustr

datatype pyval =
    PNone
  | PBool bool
  | PInt int
  | PFloat "64 word"
  | PStr ustr
  | PBytes bytes
  | PTuple "pyval list"
  | PList "pyval list"
  | PDict "(pykey \<times> pyval) list"
  | PObj ustr

type_synonym pydict = "(pykey \<times> pyval) list"

datatype py_error =
    UnicodeEncodeError | UnicodeDecodeError | AttributeError | TypeError
  | ValueError | IndexError | KeyError

text \<open>A text literal of the source, as code points.\<close>

definition ascii :: "string \<Rightarrow> ustr" where
  "ascii s = map of_char s"

text \<open>\<^verbatim>\<open>d[k] = v\<close>: an existing key keeps its position, a new key goes last.\<close>

fun dict_set :: "pykey \<Rightarrow> pyval \<Rightarrow> pydict \<Rightarrow> pydict" where
  "dict_set k v [] = [(k, v)]"
| "dict_set k v (p # ps) = (if fst p = k then (k, v) # ps else p # dict_set k v ps)"

text \<open>\<^verbatim>\<open>bool(x)\<close>, as \<^verbatim>\<open>if not x\<close> evaluates it.\<close>

fun py_truthy :: "pyval \<Rightarrow> bool" where
  "py_truthy PNone = False"
| "py_truthy (PBool b) = b"
| "py_truthy (PInt i) = (i \<noteq> 0)"
| "py_truthy (PFloat w) = (w \<noteq> 0 \<and> w \<noteq> 0x8000000000000000)"
| "py_truthy (PStr s) = (s \<noteq> [])"
| "py_truthy (PBytes b) = (b \<noteq> [])"
| "py_truthy (PTuple xs) = (xs \<noteq> [])"
| "py_truthy (PList xs) = (xs \<noteq> [])"
| "py_truthy (PDict d) = (d \<noteq> [])"
| "py_truthy (PObj s) = True"

text \<open>\<^verbatim>\<open>isinstance(x, int)\<close>: \<^verbatim>\<open>bool\<close> is a subclass of \<^verbatim>\<open>int\<close>.\<close>

fun isinstance_int :: "pyval \<Rightarrow> bool" where
  "isinstance_int (PInt i) = True"
| "isinstance_int (PBool b) = True"
| "isinstance_int v = False"

fun int_value :: "pyval \<Rightarrow> int" where
  "int_value (PInt i) = i"
| "int_value (PBool b) = (if b then 1 else 0)"
| "int_value v = 0"

section \<open>The UTF-8 codec\<close>

text \<open>
  \<^verbatim>\<open>str.encode('utf-8')\<close>: surrogates (U+D800 to U+DFFF) cannot be encoded and raise
  \<^verbatim>\<open>UnicodeEncodeError\<close>. A code point above U+10FFFF does not occur in a Python
  string; the model rejects it the same way.
\<close>

definition utf8_encode_cp :: "nat \<Rightarrow> bytes option" where
  "utf8_encode_cp c =
     (if c < 0x80 then Some [char_of c]
      else if c < 0x800 then Some [char_of (0xC0 + c div 64), char_of (0x80 + c mod 64)]
      else if c < 0x10000 then
        (if 0xD800 \<le> c \<and> c \<le> 0xDFFF then None
         else Some [char_of (0xE0 + c div 4096), char_of (0x80 + (c div 64) mod 64),
                    char_of (0x80 + c mod 64)])
      else if c < 0x110000 then
        Some [char_of (0xF0 + c div 262144), char_of (0x80 + (c div 4096) mod 64),
              char_of (0x80 + (c div 64) mod 64), char_of (0x80 + c mod 64)]
      else None)"

fun str_encode_utf8 :: "ustr \<Rightarrow> py_error + bytes" where
  "str_encode_utf8 [] = Inr []"
| "str_encode_utf8 (c # cs) =
     (case utf8_encode_cp c of
        None \<Rightarrow> Inl UnicodeEncodeError
      | Some b \<Rightarrow> (case str_encode_utf8 cs of Inl e \<Rightarrow> Inl e | Inr bs \<Rightarrow> Inr (b @ bs)))"

text \<open>
  \<^verbatim>\<open>bytes.decode('utf-8', errors=...)\<close>, following CPython's decoder
  (\<^verbatim>\<open>utf8_decode\<close> in \<^verbatim>\<open>stringlib/codecs.h\<close>). One step looks at the start byte
  \<open>b0\<close> and the bytes after it: it yields a code point and the number of continuation
  bytes it used, or reports a malformed sequence and how many bytes after the start byte
  belong to it (none for an invalid start byte, those before the offending continuation
  byte, the whole rest for a truncated sequence). The octets are handled as numbers.
\<close>

datatype errors_mode = Strict | Ignore

datatype utf8_step_result = Decoded nat nat | Malformed nat

definition is_continuation :: "nat \<Rightarrow> bool" where
  "is_continuation b = (0x80 \<le> b \<and> b < 0xC0)"

text \<open>Second bytes that would give an overlong form or a surrogate (three-byte lead).\<close>

definition bad_second3 :: "nat \<Rightarrow> nat \<Rightarrow> bool" where
  "bad_second3 b0 b1 =
     (\<not> is_continuation b1 \<or> (if b1 < 0xA0 then b0 = 0xE0 else b0 = 0xED))"

text \<open>Second bytes that would give an overlong form or exceed U+10FFFF (four-byte lead).\<close>

definition bad_second4 :: "nat \<Rightarrow> nat \<Rightarrow> bool" where
  "bad_second4 b0 b1 =
     (\<not> is_continuation b1 \<or> (if b1 < 0x90 then b0 = 0xF0 else b0 = 0xF4))"

definition utf8_step :: "nat \<Rightarrow> nat list \<Rightarrow> utf8_step_result" where
  "utf8_step b0 rest =
     (if b0 < 0x80 then Decoded b0 0
      else if b0 < 0xC2 then Malformed 0
      else if b0 < 0xE0 then
        (case rest of
           [] \<Rightarrow> Malformed 0
         | b1 # _ \<Rightarrow>
             if is_continuation b1 then Decoded ((b0 - 0xC0) * 64 + (b1 - 0x80)) 1
             else Malformed 0)
      else if b0 < 0xF0 then
        (case rest of
           [] \<Rightarrow> Malformed 0
         | [b1] \<Rightarrow> if bad_second3 b0 b1 then Malformed 0 else Malformed 1
         | b1 # b2 # _ \<Rightarrow>
             if bad_second3 b0 b1 then Malformed 0
             else if \<not> is_continuation b2 then Malformed 1
             else Decoded ((b0 - 0xE0) * 4096 + (b1 - 0x80) * 64 + (b2 - 0x80)) 2)
      else if b0 < 0xF5 then
        (case rest of
           [] \<Rightarrow> Malformed 0
         | [b1] \<Rightarrow> if bad_second4 b0 b1 then Malformed 0 else Malformed 1
         | [b1, b2] \<Rightarrow>
             if bad_second4 b0 b1 then Malformed 0
             else if \<not> is_continuation b2 then Malformed 1
             else Malformed 2
         | b1 # b2 # b3 # _ \<Rightarrow>
             if bad_second4 b0 b1 then Malformed 0
             else if \<not> is_continuation b2 then Malformed 1
             else if \<not> is_continuation b3 then Malformed 2
             else Decoded ((b0 - 0xF0) * 262144 + (b1 - 0x80) * 4096
                           + (b2 - 0x80) * 64 + (b3 - 0x80)) 3)
      else Malformed 0)"

text \<open>
  The loop: a malformed sequence raises under \<^verbatim>\<open>'strict'\<close>, and is skipped under
  \<^verbatim>\<open>'ignore'\<close>.
\<close>

function utf8_decode :: "errors_mode \<Rightarrow> nat list \<Rightarrow> py_error + ustr" where
  "utf8_decode m [] = Inr []"
| "utf8_decode m (b0 # rest) =
     (case utf8_step b0 rest of
        Decoded c n \<Rightarrow>
          (case utf8_decode m (drop n rest) of Inl e \<Rightarrow> Inl e | Inr cs \<Rightarrow> Inr (c # cs))
      | Malformed n \<Rightarrow>
          (case m of Strict \<Rightarrow> Inl UnicodeDecodeError
                   | Ignore \<Rightarrow> utf8_decode m (drop n rest)))"
  by pat_completeness auto
termination
  by (relation "measure (\<lambda>(m, bs). length bs)") auto

definition bytes_decode_utf8 :: "errors_mode \<Rightarrow> bytes \<Rightarrow> py_error + ustr" where
  "bytes_decode_utf8 m b = utf8_decode m (map of_char b)"

section \<open>The EXIF sanitizer\<close>

text \<open>
  \<^verbatim>\<open>clean_exif_data\<close> (source lines 19 to 87). The set \<^verbatim>\<open>problematic_tags\<close>
  holds integers, so a text key is never a member.
\<close>

definition problematic_tags :: "int set" where
  "problematic_tags = {41729, 40961, 40962, 40963, 34665, 34853}"

fun in_problematic_tags :: "pykey \<Rightarrow> bool" where
  "in_problematic_tags (KInt i) = (i \<in> problematic_tags)"
| "in_problematic_tags (KStr s) = False"

definition int32_range :: "int \<Rightarrow> bool" where
  "int32_range x = (-2147483648 \<le> x \<and> x \<le> 2147483647)"

text \<open>
  The body of the inner loop: one tag of one group, with the group cleaned so far.
  \<^verbatim>\<open>continue\<close> and a failed test leave \<open>cleaned_ifd\<close> as it is; the only
  statement that can raise past the inner \<^verbatim>\<open>try\<close> is \<^verbatim>\<open>tag_value.encode('utf-8')\<close>.
\<close>

fun clean_tag :: "pykey \<Rightarrow> pyval \<Rightarrow> pydict \<Rightarrow> py_error + pydict" where
  "clean_tag tag_id tag_value cleaned_ifd =
     (if in_problematic_tags tag_id then Inr cleaned_ifd
      else case tag_value of
        PBytes b \<Rightarrow>
          (case bytes_decode_utf8 Ignore b of
             Inr _ \<Rightarrow> Inr (dict_set tag_id tag_value cleaned_ifd)
           | Inl _ \<Rightarrow> Inr cleaned_ifd)
      | PStr s \<Rightarrow>
          (case str_encode_utf8 s of
             Inl e \<Rightarrow> Inl e
           | Inr b \<Rightarrow> Inr (dict_set tag_id (PBytes b) cleaned_ifd))
      | PInt i \<Rightarrow>
          (if int32_range i then Inr (dict_set tag_id tag_value cleaned_ifd)
           else Inr cleaned_ifd)
      | PBool b \<Rightarrow>
          (if int32_range (int_value tag_value)
           then Inr (dict_set tag_id tag_value cleaned_ifd)
           else Inr cleaned_ifd)
      | PTuple xs \<Rightarrow>
          (if length xs = 2 \<and> list_all isinstance_int xs
           then (if list_all (\<lambda>x. int32_range (int_value x)) xs
                 then Inr (dict_set tag_id tag_value cleaned_ifd)
                 else Inr cleaned_ifd)
           else Inr cleaned_ifd)
      | _ \<Rightarrow> Inr cleaned_ifd)"

fun clean_ifd :: "pydict \<Rightarrow> pydict \<Rightarrow> py_error + pydict" where
  "clean_ifd [] cleaned_ifd = Inr cleaned_ifd"
| "clean_ifd ((tag_id, tag_value) # rest) cleaned_ifd =
     (case clean_tag tag_id tag_value cleaned_ifd of
        Inl e \<Rightarrow> Inl e
      | Inr cleaned_ifd' \<Rightarrow> clean_ifd rest cleaned_ifd')"

text \<open>\<^verbatim>\<open>isinstance(ifd_data, (bytes, str, int))\<close>.\<close>

fun basic_entry :: "pyval \<Rightarrow> bool" where
  "basic_entry (PBytes b) = True"
| "basic_entry (PStr s) = True"
| "basic_entry (PInt i) = True"
| "basic_entry (PBool b) = True"
| "basic_entry v = False"

text \<open>The body of the outer loop: one top-level entry, with the tree cleaned so far.\<close>

fun clean_entry :: "pykey \<Rightarrow> pyval \<Rightarrow> pydict \<Rightarrow> py_error + pydict" where
  "clean_entry ifd_name (PDict ifd_data) cleaned_dict =
     (case clean_ifd ifd_data [] of
        Inl e \<Rightarrow> Inl e
      | Inr cleaned_ifd \<Rightarrow>
          (if cleaned_ifd \<noteq> [] then Inr (dict_set ifd_name (PDict cleaned_ifd) cleaned_dict)
           else Inr cleaned_dict))"
| "clean_entry ifd_name ifd_data cleaned_dict =
     (if basic_entry ifd_data then Inr (dict_set ifd_name ifd_data cleaned_dict)
      else Inr cleaned_dict)"

fun clean_entries :: "pydict \<Rightarrow> pydict \<Rightarrow> py_error + pydict" where
  "clean_entries [] cleaned_dict = Inr cleaned_dict"
| "clean_entries ((ifd_name, ifd_data) # rest) cleaned_dict =
     (case clean_entry ifd_name ifd_data cleaned_dict of
        Inl e \<Rightarrow> Inl e
      | Inr cleaned_dict' \<Rightarrow> clean_entries rest cleaned_dict')"

text \<open>
  The function: a falsy argument gives \<^verbatim>\<open>None\<close>; a truthy argument that is not a dict
  has no \<^verbatim>\<open>items\<close> (AttributeError), and every exception of the body is caught by
  \<^verbatim>\<open>except Exception\<close>, which prints a message and returns \<^verbatim>\<open>None\<close>.
\<close>

definition clean_exif_data :: "pyval \<Rightarrow> pyval" where
  "clean_exif_data exif_dict =
     (if \<not> py_truthy exif_dict then PNone
      else case exif_dict of
        PDict items \<Rightarrow>
          (case clean_entries items [] of
             Inl e \<Rightarrow> PNone
           | Inr cleaned_dict \<Rightarrow> (if cleaned_dict \<noteq> [] then PDict cleaned_dict else PNone))
      | _ \<Rightarrow> PNone)"

section \<open>The timestamp resolver\<close>

text \<open>
  \<^verbatim>\<open>str.strip()\<close> removes the characters for which \<^verbatim>\<open>str.isspace\<close> holds from
  both ends.
\<close>

definition is_space :: "nat \<Rightarrow> bool" where
  "is_space c =
     ((0x09 \<le> c \<and> c \<le> 0x0D) \<or> (0x1C \<le> c \<and> c \<le> 0x20) \<or> c = 0x85 \<or> c = 0xA0
      \<or> c = 0x1680 \<or> (0x2000 \<le> c \<and> c \<le> 0x200A) \<or> c = 0x2028 \<or> c = 0x2029
      \<or> c = 0x202F \<or> c = 0x205F \<or> c = 0x3000)"

definition str_strip :: "ustr \<Rightarrow> ustr" where
  "str_strip s = rev (dropWhile is_space (rev (dropWhile is_space s)))"

text \<open>
  The value of a float when it is a whole number: \<^verbatim>\<open>36867 == 36867.0\<close> holds in
  Python, and list membership compares with \<^verbatim>\<open>==\<close>.
\<close>

definition float_as_int :: "64 word \<Rightarrow> int option" where
  "float_as_int w =
     (let bits = unat w;
          sgn = (if bits div 2 ^ 63 = 0 then 1 else - 1);
          e = (bits div 2 ^ 52) mod 2048;
          f = bits mod 2 ^ 52
      in if e = 2047 then None
         else if e = 0 then (if f = 0 then Some 0 else None)
         else if 1075 \<le> e then Some (sgn * int ((2 ^ 52 + f) * 2 ^ (e - 1075)))
         else if (2 ^ 52 + f) mod 2 ^ (1075 - e) = 0
              then Some (sgn * int ((2 ^ 52 + f) div 2 ^ (1075 - e)))
         else None)"

fun eq_int :: "int \<Rightarrow> pyval \<Rightarrow> bool" where
  "eq_int i (PInt j) = (i = j)"
| "eq_int i (PBool b) = (i = (if b then 1 else 0))"
| "eq_int i (PFloat w) = (float_as_int w = Some i)"
| "eq_int i v = False"

text \<open>\<^verbatim>\<open>tag_id in container\<close> for an integer \<^verbatim>\<open>tag_id\<close>.\<close>

fun int_in :: "int \<Rightarrow> pyval \<Rightarrow> py_error + bool" where
  "int_in i (PDict d) = Inr (map_of d (KInt i) \<noteq> None)"
| "int_in i (PList xs) = Inr (list_ex (eq_int i) xs)"
| "int_in i (PTuple xs) = Inr (list_ex (eq_int i) xs)"
| "int_in i (PBytes b) =
     (if 0 \<le> i \<and> i < 256 then Inr (char_of (nat i) \<in> set b) else Inl ValueError)"
| "int_in i v = Inl TypeError"

text \<open>\<^verbatim>\<open>container[tag_id]\<close> for an integer \<^verbatim>\<open>tag_id\<close>.\<close>

definition seq_index :: "'a list \<Rightarrow> int \<Rightarrow> py_error + 'a" where
  "seq_index xs i =
     (if 0 \<le> i \<and> i < int (length xs) then Inr (xs ! nat i)
      else if i < 0 \<and> - int (length xs) \<le> i then Inr (xs ! nat (int (length xs) + i))
      else Inl IndexError)"

fun getitem_int :: "pyval \<Rightarrow> int \<Rightarrow> py_error + pyval" where
  "getitem_int (PDict d) i = (case map_of d (KInt i) of None \<Rightarrow> Inl KeyError | Some v \<Rightarrow> Inr v)"
| "getitem_int (PList xs) i = seq_index xs i"
| "getitem_int (PTuple xs) i = seq_index xs i"
| "getitem_int (PBytes b) i =
     (case seq_index b i of Inl e \<Rightarrow> Inl e | Inr c \<Rightarrow> Inr (PInt (of_char c)))"
| "getitem_int v i = Inl TypeError"

text \<open>
  The tag ids are constants of the \<^verbatim>\<open>piexif\<close> library (EXIF tags 0x9003, 0x9004 and
  0x0132): \<^verbatim>\<open>piexif.ExifIFD.DateTimeOriginal\<close>, \<^verbatim>\<open>piexif.ExifIFD.DateTimeDigitized\<close>
  and \<^verbatim>\<open>piexif.ImageIFD.DateTime\<close>.
\<close>

definition DateTimeOriginal :: int where
  "DateTimeOriginal = 36867"

definition DateTimeDigitized :: int where
  "DateTimeDigitized = 36868"

definition DateTime :: int where
  "DateTime = 306"

definition datetime_tags :: "(ustr \<times> int) list" where
  "datetime_tags =
     [(ascii ''Exif'', DateTimeOriginal), (ascii ''Exif'', DateTimeDigitized),
      (ascii ''0th'', DateTime)]"

definition placeholder_datetime :: ustr where
  "placeholder_datetime = ascii ''0000:00:00 00:00:00''"

text \<open>
  One round of the loop over \<^verbatim>\<open>datetime_tags\<close>: \<open>Inr (Some s)\<close> is
  \<^verbatim>\<open>return datetime_str\<close>, \<open>Inr None\<close> goes on with the next field, \<open>Inl e\<close> is an
  exception.
\<close>

definition usable_datetime :: "ustr \<Rightarrow> ustr option" where
  "usable_datetime datetime_str =
     (if datetime_str \<noteq> [] \<and> datetime_str \<noteq> placeholder_datetime then Some datetime_str
      else None)"

definition probe_datetime :: "pydict \<Rightarrow> ustr \<Rightarrow> int \<Rightarrow> py_error + ustr option" where
  "probe_datetime exif_dict ifd_name tag_id =
     (case map_of exif_dict (KStr ifd_name) of
        None \<Rightarrow> Inr None
      | Some ifd \<Rightarrow>
          (case int_in tag_id ifd of
             Inl e \<Rightarrow> Inl e
           | Inr False \<Rightarrow> Inr None
           | Inr True \<Rightarrow>
               (case getitem_int ifd tag_id of
                  Inl e \<Rightarrow> Inl e
                | Inr datetime_value \<Rightarrow>
                    (case datetime_value of
                       PBytes b \<Rightarrow>
                         (case bytes_decode_utf8 Ignore b of
                            Inl e \<Rightarrow> Inl e
                          | Inr s \<Rightarrow> Inr (usable_datetime (str_strip s)))
                     | PStr s \<Rightarrow> Inr (usable_datetime (str_strip s))
                     | _ \<Rightarrow> Inr None))))"

fun probe_all :: "pydict \<Rightarrow> (ustr \<times> int) list \<Rightarrow> py_error + ustr option" where
  "probe_all exif_dict [] = Inr None"
| "probe_all exif_dict ((ifd_name, tag_id) # rest) =
     (case probe_datetime exif_dict ifd_name tag_id of
        Inl e \<Rightarrow> Inl e
      | Inr (Some datetime_str) \<Rightarrow> Inr (Some datetime_str)
      | Inr None \<Rightarrow> probe_all exif_dict rest)"

text \<open>
  \<^verbatim>\<open>get_creation_datetime_from_exif\<close> (source lines 135 to 173). A truthy argument
  that is not a dict raises on \<^verbatim>\<open>in\<close> or on the subscript \<^verbatim>\<open>exif_dict[ifd_name]\<close>,
  or matches no name; each way the result is \<^verbatim>\<open>None\<close>. An exception anywhere in the
  loop is caught after the loop, so it ends the search with \<^verbatim>\<open>None\<close>.
\<close>

definition get_creation_datetime_from_exif :: "pyval \<Rightarrow> pyval" where
  "get_creation_datetime_from_exif exif_dict =
     (if \<not> py_truthy exif_dict then PNone
      else case exif_dict of
        PDict d \<Rightarrow>
          (case probe_all d datetime_tags of
             Inl e \<Rightarrow> PNone
           | Inr None \<Rightarrow> PNone
           | Inr (Some datetime_str) \<Rightarrow> PStr datetime_str)
      | _ \<Rightarrow> PNone)"

section \<open>Colour-mode normalization\<close>




section \<open>JSON-safe conversion\<close>

text \<open>\<^verbatim>\<open>str(n)\<close> for an integer: decimal digits, with a minus sign.\<close>

fun str_nat :: "nat \<Rightarrow> ustr" where
  "str_nat n = (if n < 10 then [48 + n] else str_nat (n div 10) @ [48 + n mod 10])"

definition str_int :: "int \<Rightarrow> ustr" where
  "str_int i = (if i < 0 then 45 # str_nat (nat (- i)) else str_nat (nat i))"

text \<open>\<^verbatim>\<open>str(k)\<close> for a dict key.\<close>

fun str_key :: "pykey \<Rightarrow> ustr" where
  "str_key (KInt i) = str_int i"
| "str_key (KStr s) = s"

text \<open>\<^verbatim>\<open>bytes.hex()\<close>: two lower-case hexadecimal digits for each octet.\<close>

definition hex_digit :: "nat \<Rightarrow> nat" where
  "hex_digit d = (if d < 10 then 48 + d else 87 + d)"

definition bytes_hex :: "bytes \<Rightarrow> ustr" where
  "bytes_hex b = concat (map (\<lambda>c. [hex_digit (of_char c div 16), hex_digit (of_char c mod 16)]) b)"

text \<open>The f-string of source line 283.\<close>

definition bytes_placeholder :: "bytes \<Rightarrow> ustr" where
  "bytes_placeholder obj =
     ascii ''<bytes:'' @ str_nat (length obj) @ ascii '':'' @ take 50 (bytes_hex obj)
       @ (if length (bytes_hex obj) > 50 then ascii ''...'' else []) @ ascii ''>''"

text \<open>A dict comprehension stores its items one after the other.\<close>

fun dict_of_items :: "pydict \<Rightarrow> pydict \<Rightarrow> pydict" where
  "dict_of_items [] d = d"
| "dict_of_items ((k, v) # rest) d = dict_of_items rest (dict_set k v d)"

text \<open>\<^verbatim>\<open>convert_bytes_for_json\<close> (source lines 267 to 292).\<close>

fun convert_bytes_for_json :: "pyval \<Rightarrow> pyval" where
  "convert_bytes_for_json (PBytes obj) =
     (case bytes_decode_utf8 Strict obj of
        Inr s \<Rightarrow> PStr s
      | Inl e \<Rightarrow> PStr (bytes_placeholder obj))"
| "convert_bytes_for_json (PDict obj) =
     PDict (dict_of_items (map (\<lambda>(k, v). (KStr (str_key k), convert_bytes_for_json v)) obj) [])"
| "convert_bytes_for_json (PList obj) = PList (map convert_bytes_for_json obj)"
| "convert_bytes_for_json (PTuple obj) = PList (map convert_bytes_for_json obj)"
| "convert_bytes_for_json (PInt i) = PInt i"
| "convert_bytes_for_json (PFloat w) = PFloat w"
| "convert_bytes_for_json (PStr s) = PStr s"
| "convert_bytes_for_json (PBool b) = PBool b"
| "convert_bytes_for_json PNone = PNone"
| "convert_bytes_for_json (PObj s) = PStr s"

section \<open>Notions used to state the properties\<close>

text \<open>\<open>tree[g][k]\<close>, when \<open>tree\<close> is a dict, \<open>g\<close> one of its keys with a dict value and \<open>k\<close> a key of that.\<close>

definition tag_lookup :: "pyval \<Rightarrow> pykey \<Rightarrow> pykey \<Rightarrow> pyval option" where
  "tag_lookup tree g k =
     (case tree of
        PDict d \<Rightarrow> (case map_of d g of Some (PDict tags) \<Rightarrow> map_of tags k | _ \<Rightarrow> None)
      | _ \<Rightarrow> None)"

text \<open>\<open>tree[g]\<close>, when \<open>tree\<close> is a dict with key \<open>g\<close>.\<close>

definition entry_lookup :: "pyval \<Rightarrow> pykey \<Rightarrow> pyval option" where
  "entry_lookup tree g = (case tree of PDict d \<Rightarrow> map_of d g | _ \<Rightarrow> None)"

text \<open>A well-formed dict has no key twice, at the top level and in every group.\<close>

fun distinct_keys :: "pyval \<Rightarrow> bool" where
  "distinct_keys (PDict d) = distinct (map fst d)"
| "distinct_keys v = True"

definition wf_tree :: "pyval \<Rightarrow> bool" where
  "wf_tree tree = (distinct_keys tree \<and>
     (case tree of PDict d \<Rightarrow> list_all (\<lambda>p. distinct_keys (snd p)) d | _ \<Rightarrow> True))"

text \<open>
  The tags on which the sanitizer raises: text outside the denylist that has no UTF-8
  encoding. A tree raises when one of its groups holds such a tag.
\<close>

fun tag_raises :: "pykey \<times> pyval \<Rightarrow> bool" where
  "tag_raises (k, PStr s) = (\<not> in_problematic_tags k \<and> isl (str_encode_utf8 s))"
| "tag_raises (k, v) = False"

fun entry_raises :: "pykey \<times> pyval \<Rightarrow> bool" where
  "entry_raises (g, PDict tags) = list_ex tag_raises tags"
| "entry_raises (g, v) = False"

fun tree_raises :: "pyval \<Rightarrow> bool" where
  "tree_raises (PDict d) = list_ex entry_raises d"
| "tree_raises v = False"

text \<open>What the inner loop stores for a tag that does not raise, if anything.\<close>

definition kept_value :: "pykey \<Rightarrow> pyval \<Rightarrow> pyval option" where
  "kept_value k v =
     (if in_problematic_tags k then None
      else case v of
        PBytes b \<Rightarrow> Some v
      | PStr s \<Rightarrow> (case str_encode_utf8 s of Inl e \<Rightarrow> None | Inr b \<Rightarrow> Some (PBytes b))
      | PInt i \<Rightarrow> (if int32_range i then Some v else None)
      | PBool b \<Rightarrow> Some v
      | PTuple xs \<Rightarrow>
          (if length xs = 2 \<and> list_all isinstance_int xs
              \<and> list_all (\<lambda>x. int32_range (int_value x)) xs
           then Some v else None)
      | _ \<Rightarrow> None)"

text \<open>What the outer loop stores for a top-level entry that does not raise, if anything.\<close>

definition kept_entry :: "pyval \<Rightarrow> pyval option" where
  "kept_entry v =
     (case v of
        PDict tags \<Rightarrow>
          (case clean_ifd tags [] of
             Inl e \<Rightarrow> None
           | Inr c \<Rightarrow> (if c \<noteq> [] then Some (PDict c) else None))
      | _ \<Rightarrow> (if basic_entry v then Some v else None))"

text \<open>
  An entry survives the filter when it is a group with a tag that passes validation, or
  a blob, text or an integer.
\<close>

definition tag_survives :: "pykey \<times> pyval \<Rightarrow> bool" where
  "tag_survives p = (kept_value (fst p) (snd p) \<noteq> None)"

fun entry_survives :: "pykey \<times> pyval \<Rightarrow> bool" where
  "entry_survives (g, PDict tags) = list_ex tag_survives tags"
| "entry_survives (g, v) = basic_entry v"

text \<open>
  Trees that the sanitizer leaves as they are: not empty; every group is a non-empty dict
  of tags outside the denylist whose values are blobs, integers in range or pairs of
  integers in range; every other entry is a blob, text or an integer.
\<close>

fun stable_value :: "pyval \<Rightarrow> bool" where
  "stable_value (PBytes b) = True"
| "stable_value (PInt i) = int32_range i"
| "stable_value (PBool b) = True"
| "stable_value (PTuple xs) =
     (length xs = 2 \<and> list_all isinstance_int xs \<and> list_all (\<lambda>x. int32_range (int_value x)) xs)"
| "stable_value v = False"

definition stable_tag :: "pykey \<times> pyval \<Rightarrow> bool" where
  "stable_tag p = (\<not> in_problematic_tags (fst p) \<and> stable_value (snd p))"

fun stable_entry :: "pykey \<times> pyval \<Rightarrow> bool" where
  "stable_entry (g, PDict tags) =
     (tags \<noteq> [] \<and> distinct (map fst tags) \<and> list_all stable_tag tags)"
| "stable_entry (g, v) = basic_entry v"

fun stable_tree :: "pyval \<Rightarrow> bool" where
  "stable_tree (PDict d) = (d \<noteq> [] \<and> distinct (map fst d) \<and> list_all stable_entry d)"
| "stable_tree v = False"

text \<open>
  The resolver as the specification words it: the first of the three fields, in the
  order original, digitized, modified, that gives a usable string.
\<close>

definition field_datetime :: "pyval \<Rightarrow> ustr \<Rightarrow> int \<Rightarrow> ustr option" where
  "field_datetime tree ifd_name tag_id =
     (case tag_lookup tree (KStr ifd_name) (KInt tag_id) of
        Some (PBytes b) \<Rightarrow>
          (case bytes_decode_utf8 Ignore b of
             Inl e \<Rightarrow> None
           | Inr s \<Rightarrow> usable_datetime (str_strip s))
      | Some (PStr s) \<Rightarrow> usable_datetime (str_strip s)
      | _ \<Rightarrow> None)"

definition first_usable_datetime :: "pyval \<Rightarrow> pyval" where
  "first_usable_datetime tree =
     (case field_datetime tree (ascii ''Exif'') DateTimeOriginal of
        Some s \<Rightarrow> PStr s
      | None \<Rightarrow>
          (case field_datetime tree (ascii ''Exif'') DateTimeDigitized of
             Some s \<Rightarrow> PStr s
           | None \<Rightarrow>
               (case field_datetime tree (ascii ''0th'') DateTime of
                  Some s \<Rightarrow> PStr s
                | None \<Rightarrow> PNone)))"

text \<open>
  Values that \<^verbatim>\<open>json.dump\<close> writes without help: null, booleans, numbers, text, lists
  of such values and dicts from text keys to such values.
\<close>

fun json_safe :: "pyval \<Rightarrow> bool" where
  "json_safe PNone = True"
| "json_safe (PBool b) = True"
| "json_safe (PInt i) = True"
| "json_safe (PFloat w) = True"
| "json_safe (PStr s) = True"
| "json_safe (PList xs) = list_all json_safe xs"
| "json_safe (PDict d) = list_all (\<lambda>p. (case fst p of KStr s \<Rightarrow> True | KInt i \<Rightarrow> False)
                                        \<and> json_safe (snd p)) d"
| "json_safe v = False"

section \<open>Properties of the sanitizer loops\<close>

subsection \<open>Dict assignment\<close>

lemma set_dict_set: "set (dict_set k v d) \<subseteq> insert (k, v) (set d)"
  by (induction d) auto

lemma map_of_dict_set: "map_of (dict_set k v d) = (map_of d)(k \<mapsto> v)"
  by (induction d) (auto simp: fun_eq_iff)

lemma keys_dict_set: "fst ` set (dict_set k v d) = insert k (fst ` set d)"
  by (induction d) auto

lemma distinct_dict_set: "distinct (map fst d) \<Longrightarrow> distinct (map fst (dict_set k v d))"
  by (induction d) (auto simp: keys_dict_set)

lemma dict_set_new: "k \<notin> fst ` set d \<Longrightarrow> dict_set k v d = d @ [(k, v)]"
  by (induction d) auto

lemma dict_set_not_empty: "dict_set k v d \<noteq> []"
  by (cases d) auto

lemma dict_set_member: "(k, v) \<in> set (dict_set k v d)"
  by (induction d) auto

subsection \<open>The codec\<close>

lemma utf8_decode_ignore: "m = Ignore \<Longrightarrow> \<exists>s. utf8_decode m bs = Inr s"
  by (induction m bs rule: utf8_decode.induct) (auto split: utf8_step_result.splits)

lemma bytes_decode_ignore: "\<exists>s. bytes_decode_utf8 Ignore b = Inr s"
  by (simp add: bytes_decode_utf8_def utf8_decode_ignore)

lemma str_encode_error: "str_encode_utf8 s = Inl e \<Longrightarrow> e = UnicodeEncodeError"
  by (induction s) (auto split: option.splits sum.splits)

subsection \<open>The inner loop\<close>

lemma clean_tag_eq:
  "clean_tag k v acc =
     (if tag_raises (k, v) then Inl UnicodeEncodeError
      else Inr (case kept_value k v of None \<Rightarrow> acc | Some w \<Rightarrow> dict_set k w acc))"
proof (cases v)
  case (PBytes b)
  obtain s where "bytes_decode_utf8 Ignore b = Inr s" using bytes_decode_ignore by blast
  with PBytes show ?thesis by (simp add: kept_value_def)
next
  case (PStr s)
  show ?thesis
  proof (cases "str_encode_utf8 s")
    case (Inl e)
    with str_encode_error have "e = UnicodeEncodeError" by blast
    with Inl PStr show ?thesis by (simp add: kept_value_def)
  next
    case (Inr b)
    with PStr show ?thesis by (simp add: kept_value_def)
  qed
qed (simp_all add: kept_value_def int32_range_def)

lemma kept_value_stable: "kept_value k v = Some w \<Longrightarrow> stable_tag (k, w)"
  by (cases v) (auto simp: kept_value_def stable_tag_def split: if_splits sum.splits)

lemma stable_kept_value: "stable_tag (k, v) \<Longrightarrow> kept_value k v = Some v"
  by (cases v) (auto simp: kept_value_def stable_tag_def)

lemma stable_not_raises: "stable_tag (k, v) \<Longrightarrow> \<not> tag_raises (k, v)"
  by (cases v) (auto simp: stable_tag_def)

lemma clean_ifd_raises:
  "list_ex tag_raises tags \<Longrightarrow> clean_ifd tags acc = Inl UnicodeEncodeError"
proof (induction tags arbitrary: acc)
  case Nil
  then show ?case by simp
next
  case (Cons p tags)
  obtain k v where p: "p = (k, v)" by (cases p)
  show ?case
  proof (cases "tag_raises (k, v)")
    case True
    then show ?thesis unfolding p clean_ifd.simps clean_tag_eq by simp
  next
    case False
    with Cons.prems p have "list_ex tag_raises tags" by simp
    from Cons.IH[OF this] False show ?thesis unfolding p clean_ifd.simps clean_tag_eq by simp
  qed
qed

lemma clean_ifd_returns:
  "\<not> list_ex tag_raises tags \<Longrightarrow> \<exists>r. clean_ifd tags acc = Inr r"
proof (induction tags arbitrary: acc)
  case Nil
  then show ?case by simp
next
  case (Cons p tags)
  obtain k v where p: "p = (k, v)" by (cases p)
  from Cons.prems p have nr: "\<not> tag_raises (k, v)" and rest: "\<not> list_ex tag_raises tags"
    by simp_all
  from Cons.IH[OF rest] nr show ?case unfolding p clean_ifd.simps clean_tag_eq by simp
qed

lemma clean_ifd_step:
  assumes "clean_ifd ((k, v) # tags) acc = Inr r"
  shows "\<not> tag_raises (k, v) \<and>
         clean_ifd tags (case kept_value k v of None \<Rightarrow> acc | Some w \<Rightarrow> dict_set k w acc) = Inr r"
  using assms unfolding clean_ifd.simps clean_tag_eq by (simp split: if_splits)

lemma clean_ifd_lookup:
  "clean_ifd tags acc = Inr r \<Longrightarrow> distinct (map fst tags) \<Longrightarrow>
   map_of r k =
     (case map_of tags k of
        None \<Rightarrow> map_of acc k
      | Some v \<Rightarrow> (case kept_value k v of None \<Rightarrow> map_of acc k | Some w \<Rightarrow> Some w))"
proof (induction tags arbitrary: acc)
  case Nil
  then show ?case by simp
next
  case (Cons p tags)
  obtain k' v' where p: "p = (k', v')" by (cases p)
  let ?acc = "case kept_value k' v' of None \<Rightarrow> acc | Some w \<Rightarrow> dict_set k' w acc"
  from Cons.prems(1) p have rest: "clean_ifd tags ?acc = Inr r"
    using clean_ifd_step by blast
  from Cons.prems(2) p have d: "distinct (map fst tags)" and nk: "k' \<notin> fst ` set tags"
    by simp_all
  note IH = Cons.IH[OF rest d]
  show ?case
  proof (cases "k = k'")
    case True
    with nk have "map_of tags k = None" by (simp add: map_of_eq_None_iff)
    with IH True p show ?thesis
      by (simp add: map_of_dict_set split: option.splits)
  next
    case False
    with IH p show ?thesis
      by (simp add: map_of_dict_set split: option.splits)
  qed
qed

lemma list_all_dict_set: "P (k, v) \<Longrightarrow> list_all P d \<Longrightarrow> list_all P (dict_set k v d)"
  using set_dict_set[of k v d] by (auto simp: list_all_iff)

lemma clean_ifd_distinct:
  "clean_ifd tags acc = Inr r \<Longrightarrow> distinct (map fst acc) \<Longrightarrow> distinct (map fst r)"
proof (induction tags arbitrary: acc)
  case Nil
  then show ?case by simp
next
  case (Cons p tags)
  obtain k v where p: "p = (k, v)" by (cases p)
  let ?acc = "case kept_value k v of None \<Rightarrow> acc | Some w \<Rightarrow> dict_set k w acc"
  from Cons.prems(1) p have rest: "clean_ifd tags ?acc = Inr r"
    using clean_ifd_step by blast
  from Cons.prems(2) have "distinct (map fst ?acc)"
    by (simp add: distinct_dict_set split: option.splits)
  from Cons.IH[OF rest this] show ?case .
qed

lemma clean_ifd_stable:
  "clean_ifd tags acc = Inr r \<Longrightarrow> list_all stable_tag acc \<Longrightarrow> list_all stable_tag r"
proof (induction tags arbitrary: acc)
  case Nil
  then show ?case by simp
next
  case (Cons p tags)
  obtain k v where p: "p = (k, v)" by (cases p)
  let ?acc = "case kept_value k v of None \<Rightarrow> acc | Some w \<Rightarrow> dict_set k w acc"
  from Cons.prems(1) p have rest: "clean_ifd tags ?acc = Inr r"
    using clean_ifd_step by blast
  from Cons.prems(2) have "list_all stable_tag ?acc"
    by (auto simp: list_all_dict_set kept_value_stable split: option.splits)
  from Cons.IH[OF rest this] show ?case .
qed

lemma clean_ifd_fixed:
  "list_all stable_tag tags \<Longrightarrow> distinct (map fst tags) \<Longrightarrow>
   fst ` set tags \<inter> fst ` set acc = {} \<Longrightarrow> clean_ifd tags acc = Inr (acc @ tags)"
proof (induction tags arbitrary: acc)
  case Nil
  then show ?case by simp
next
  case (Cons p tags)
  obtain k v where p: "p = (k, v)" by (cases p)
  from Cons.prems(1) p have st: "stable_tag (k, v)" and rest: "list_all stable_tag tags"
    by simp_all
  from Cons.prems(2) p have d: "distinct (map fst tags)" and nk: "k \<notin> fst ` set tags"
    by simp_all
  from Cons.prems(3) p have new: "k \<notin> fst ` set acc" by auto
  have step: "clean_tag k v acc = Inr (acc @ [(k, v)])"
    unfolding clean_tag_eq using st new
    by (simp add: stable_not_raises stable_kept_value dict_set_new)
  from Cons.prems(3) p nk have "fst ` set tags \<inter> fst ` set (acc @ [(k, v)]) = {}" by auto
  from Cons.IH[OF rest d this] step p show ?case by simp
qed

subsection \<open>The outer loop\<close>

lemma clean_entry_eq:
  "clean_entry g v acc =
     (if entry_raises (g, v) then Inl UnicodeEncodeError
      else Inr (case kept_entry v of None \<Rightarrow> acc | Some w \<Rightarrow> dict_set g w acc))"
proof (cases v)
  case (PDict tags)
  show ?thesis
  proof (cases "list_ex tag_raises tags")
    case True
    with PDict clean_ifd_raises[OF True, of "[]"] show ?thesis by simp
  next
    case False
    from clean_ifd_returns[OF False, of "[]"] obtain c where "clean_ifd tags [] = Inr c" ..
    with PDict False show ?thesis by (simp add: kept_entry_def)
  qed
qed (simp_all add: kept_entry_def)

lemma kept_entry_stable: "kept_entry v = Some w \<Longrightarrow> stable_entry (g, w)"
proof (cases v)
  case (PDict tags)
  assume "kept_entry v = Some w"
  with PDict obtain c where c: "clean_ifd tags [] = Inr c" "c \<noteq> []" "w = PDict c"
    by (auto simp: kept_entry_def split: sum.splits if_splits)
  from clean_ifd_distinct[OF c(1)] clean_ifd_stable[OF c(1)] c(2,3)
  show ?thesis by simp
qed (auto simp: kept_entry_def split: if_splits)

lemma stable_entry_kept:
  assumes "stable_entry (g, v)"
  shows "kept_entry v = Some v" and "\<not> entry_raises (g, v)"
proof -
  show "kept_entry v = Some v"
  proof (cases v)
    case (PDict tags)
    with assms have "clean_ifd tags [] = Inr tags" "tags \<noteq> []"
      using clean_ifd_fixed[of tags "[]"] by simp_all
    with PDict show ?thesis by (simp add: kept_entry_def)
  qed (use assms in \<open>simp_all add: kept_entry_def\<close>)
  show "\<not> entry_raises (g, v)"
  proof (cases v)
    case (PDict tags)
    with assms have "list_all stable_tag tags" by simp
    then have "\<not> list_ex tag_raises tags"
      by (auto simp: list_all_iff list_ex_iff stable_not_raises)
    with PDict show ?thesis by simp
  qed simp_all
qed

lemma clean_entries_raises:
  "list_ex entry_raises d \<Longrightarrow> clean_entries d acc = Inl UnicodeEncodeError"
proof (induction d arbitrary: acc)
  case Nil
  then show ?case by simp
next
  case (Cons p d)
  obtain g v where p: "p = (g, v)" by (cases p)
  show ?case
  proof (cases "entry_raises (g, v)")
    case True
    then show ?thesis unfolding p clean_entries.simps clean_entry_eq by simp
  next
    case False
    with Cons.prems p have "list_ex entry_raises d" by simp
    from Cons.IH[OF this] False show ?thesis unfolding p clean_entries.simps clean_entry_eq by simp
  qed
qed

lemma clean_entries_returns:
  "\<not> list_ex entry_raises d \<Longrightarrow> \<exists>r. clean_entries d acc = Inr r"
proof (induction d arbitrary: acc)
  case Nil
  then show ?case by simp
next
  case (Cons p d)
  obtain g v where p: "p = (g, v)" by (cases p)
  from Cons.prems p have nr: "\<not> entry_raises (g, v)" and rest: "\<not> list_ex entry_raises d"
    by simp_all
  from Cons.IH[OF rest] nr show ?case unfolding p clean_entries.simps clean_entry_eq by simp
qed

lemma clean_entries_step:
  assumes "clean_entries ((g, v) # d) acc = Inr r"
  shows "\<not> entry_raises (g, v) \<and>
         clean_entries d (case kept_entry v of None \<Rightarrow> acc | Some w \<Rightarrow> dict_set g w acc) = Inr r"
  using assms unfolding clean_entries.simps clean_entry_eq by (simp split: if_splits)

lemma clean_entries_lookup:
  "clean_entries d acc = Inr r \<Longrightarrow> distinct (map fst d) \<Longrightarrow>
   map_of r g =
     (case map_of d g of
        None \<Rightarrow> map_of acc g
      | Some v \<Rightarrow> (case kept_entry v of None \<Rightarrow> map_of acc g | Some w \<Rightarrow> Some w))"
proof (induction d arbitrary: acc)
  case Nil
  then show ?case by simp
next
  case (Cons p d)
  obtain g' v' where p: "p = (g', v')" by (cases p)
  let ?acc = "case kept_entry v' of None \<Rightarrow> acc | Some w \<Rightarrow> dict_set g' w acc"
  from Cons.prems(1) p have rest: "clean_entries d ?acc = Inr r"
    using clean_entries_step by blast
  from Cons.prems(2) p have dd: "distinct (map fst d)" and nk: "g' \<notin> fst ` set d"
    by simp_all
  note IH = Cons.IH[OF rest dd]
  show ?case
  proof (cases "g = g'")
    case True
    with nk have "map_of d g = None" by (simp add: map_of_eq_None_iff)
    with IH True p show ?thesis
      by (simp add: map_of_dict_set split: option.splits)
  next
    case False
    with IH p show ?thesis
      by (simp add: map_of_dict_set split: option.splits)
  qed
qed

lemma clean_entries_distinct:
  "clean_entries d acc = Inr r \<Longrightarrow> distinct (map fst acc) \<Longrightarrow> distinct (map fst r)"
proof (induction d arbitrary: acc)
  case Nil
  then show ?case by simp
next
  case (Cons p d)
  obtain g v where p: "p = (g, v)" by (cases p)
  let ?acc = "case kept_entry v of None \<Rightarrow> acc | Some w \<Rightarrow> dict_set g w acc"
  from Cons.prems(1) p have rest: "clean_entries d ?acc = Inr r"
    using clean_entries_step by blast
  from Cons.prems(2) have "distinct (map fst ?acc)"
    by (simp add: distinct_dict_set split: option.splits)
  from Cons.IH[OF rest this] show ?case .
qed

lemma clean_entries_stable:
  "clean_entries d acc = Inr r \<Longrightarrow> list_all stable_entry acc \<Longrightarrow> list_all stable_entry r"
proof (induction d arbitrary: acc)
  case Nil
  then show ?case by simp
next
  case (Cons p d)
  obtain g v where p: "p = (g, v)" by (cases p)
  let ?acc = "case kept_entry v of None \<Rightarrow> acc | Some w \<Rightarrow> dict_set g w acc"
  from Cons.prems(1) p have rest: "clean_entries d ?acc = Inr r"
    using clean_entries_step by blast
  from Cons.prems(2) have "list_all stable_entry ?acc"
    by (auto simp: list_all_dict_set kept_entry_stable split: option.splits)
  from Cons.IH[OF rest this] show ?case .
qed

lemma clean_entries_fixed:
  "list_all stable_entry d \<Longrightarrow> distinct (map fst d) \<Longrightarrow>
   fst ` set d \<inter> fst ` set acc = {} \<Longrightarrow> clean_entries d acc = Inr (acc @ d)"
proof (induction d arbitrary: acc)
  case Nil
  then show ?case by simp
next
  case (Cons p d)
  obtain g v where p: "p = (g, v)" by (cases p)
  from Cons.prems(1) p have st: "stable_entry (g, v)" and rest: "list_all stable_entry d"
    by simp_all
  from Cons.prems(2) p have dd: "distinct (map fst d)" and nk: "g \<notin> fst ` set d"
    by simp_all
  from Cons.prems(3) p have new: "g \<notin> fst ` set acc" by auto
  have step: "clean_entry g v acc = Inr (acc @ [(g, v)])"
    unfolding clean_entry_eq using stable_entry_kept[OF st] new
    by (simp add: dict_set_new)
  from Cons.prems(3) p nk have "fst ` set d \<inter> fst ` set (acc @ [(g, v)]) = {}" by auto
  from Cons.IH[OF rest dd this] step p show ?case by simp
qed

subsection \<open>The whole function\<close>

lemma clean_exif_data_eq:
  "clean_exif_data tree =
     (case tree of
        PDict d \<Rightarrow>
          (if tree_raises tree then PNone
           else case clean_entries d [] of
                  Inl e \<Rightarrow> PNone
                | Inr r \<Rightarrow> (if r \<noteq> [] then PDict r else PNone))
      | _ \<Rightarrow> PNone)"
proof (cases tree)
  case (PDict d)
  show ?thesis
  proof (cases "list_ex entry_raises d")
    case True
    with PDict clean_entries_raises[OF True, of "[]"] show ?thesis
      by (simp add: clean_exif_data_def)
  next
    case False
    from clean_entries_returns[OF False, of "[]"] obtain r where r: "clean_entries d [] = Inr r" ..
    have "d = [] \<Longrightarrow> r = []" using r by auto
    with PDict False r show ?thesis
      by (auto simp: clean_exif_data_def)
  qed
qed (simp_all add: clean_exif_data_def)

lemma sanitized_dict:
  assumes "clean_exif_data tree = PDict r"
  shows "r \<noteq> [] \<and> distinct (map fst r) \<and> list_all stable_entry r"
proof -
  from assms obtain d where "tree = PDict d" "clean_entries d [] = Inr r" "r \<noteq> []"
    unfolding clean_exif_data_eq by (auto split: pyval.splits if_splits sum.splits)
  with clean_entries_distinct[of d "[]" r] clean_entries_stable[of d "[]" r]
  show ?thesis by simp
qed

lemma sanitized_entry_lookup:
  assumes "distinct (map fst d)" and "\<not> tree_raises (PDict d)"
  shows "entry_lookup (clean_exif_data (PDict d)) g =
           (case map_of d g of None \<Rightarrow> None | Some v \<Rightarrow> kept_entry v)"
proof -
  from assms(2) have "\<not> list_ex entry_raises d" by simp
  from clean_entries_returns[OF this, of "[]"] obtain r where r: "clean_entries d [] = Inr r" ..
  from clean_entries_lookup[OF r assms(1), of g]
  have look: "map_of r g = (case map_of d g of None \<Rightarrow> None | Some v \<Rightarrow> kept_entry v)"
    by (simp split: option.splits)
  show ?thesis
  proof (cases "r = []")
    case True
    with r assms(2) have "clean_exif_data (PDict d) = PNone"
      unfolding clean_exif_data_eq by simp
    with look True show ?thesis by (simp add: entry_lookup_def)
  next
    case False
    with r assms(2) have "clean_exif_data (PDict d) = PDict r"
      unfolding clean_exif_data_eq by simp
    with look show ?thesis by (simp add: entry_lookup_def)
  qed
qed

lemma tag_lookup_entry:
  "tag_lookup tree g k =
     (case entry_lookup tree g of Some (PDict tags) \<Rightarrow> map_of tags k | _ \<Rightarrow> None)"
  by (simp add: tag_lookup_def entry_lookup_def split: pyval.splits)

lemma tag_lookup_SomeD:
  assumes "tag_lookup tree g k = Some v"
  obtains d tags where "tree = PDict d" "map_of d g = Some (PDict tags)" "map_of tags k = Some v"
  using assms by (auto simp: tag_lookup_def split: pyval.splits option.splits)

lemma sanitized_tag_lookup:
  assumes "wf_tree tree" and "\<not> tree_raises tree" and "tag_lookup tree g k = Some v"
  shows "tag_lookup (clean_exif_data tree) g k = kept_value k v"
proof -
  from assms(3) obtain d tags where
    tree: "tree = PDict d" and g: "map_of d g = Some (PDict tags)" and k: "map_of tags k = Some v"
    by (rule tag_lookup_SomeD)
  from g have mem: "(g, PDict tags) \<in> set d" by (rule map_of_SomeD)
  from assms(1) tree have dd: "distinct (map fst d)" and "list_all (\<lambda>p. distinct_keys (snd p)) d"
    by (simp_all add: wf_tree_def)
  with mem have dt: "distinct (map fst tags)" by (auto simp: list_all_iff)
  from assms(2) tree mem have "\<not> list_ex tag_raises tags"
    by (auto simp: list_ex_iff)
  from clean_ifd_returns[OF this, of "[]"] obtain c where c: "clean_ifd tags [] = Inr c" ..
  from clean_ifd_lookup[OF c dt, of k] k have ck: "map_of c k = kept_value k v"
    by (simp split: option.splits)
  from sanitized_entry_lookup[OF dd, of g] assms(2) tree g
  have "entry_lookup (clean_exif_data tree) g = kept_entry (PDict tags)" by simp
  with c have "entry_lookup (clean_exif_data tree) g = (if c \<noteq> [] then Some (PDict c) else None)"
    by (simp add: kept_entry_def)
  with ck show ?thesis
    by (cases "c = []") (simp_all add: tag_lookup_entry)
qed

lemma raising_tree_gives_None: "tree_raises tree \<Longrightarrow> clean_exif_data tree = PNone"
  by (cases tree) (simp_all add: clean_exif_data_eq)

lemma clean_ifd_empty:
  "clean_ifd tags acc = Inr r \<Longrightarrow> (r = [] \<longleftrightarrow> acc = [] \<and> \<not> list_ex tag_survives tags)"
proof (induction tags arbitrary: acc)
  case Nil
  then show ?case by auto
next
  case (Cons p tags)
  obtain k v where p: "p = (k, v)" by (cases p)
  let ?acc = "case kept_value k v of None \<Rightarrow> acc | Some w \<Rightarrow> dict_set k w acc"
  from Cons.prems p have rest: "clean_ifd tags ?acc = Inr r"
    using clean_ifd_step by blast
  from Cons.IH[OF rest] p show ?case
    by (cases "kept_value k v") (simp_all add: tag_survives_def dict_set_not_empty)
qed

lemma clean_entries_empty:
  "clean_entries d acc = Inr r \<Longrightarrow>
     (r = [] \<longleftrightarrow> acc = [] \<and> (\<forall>p \<in> set d. kept_entry (snd p) = None))"
proof (induction d arbitrary: acc)
  case Nil
  then show ?case by auto
next
  case (Cons p d)
  obtain g v where p: "p = (g, v)" by (cases p)
  let ?acc = "case kept_entry v of None \<Rightarrow> acc | Some w \<Rightarrow> dict_set g w acc"
  from Cons.prems p have rest: "clean_entries d ?acc = Inr r"
    using clean_entries_step by blast
  from Cons.IH[OF rest] p show ?case
    by (cases "kept_entry v") (simp_all add: dict_set_not_empty)
qed

lemma kept_entry_None_iff:
  assumes "\<not> entry_raises (g, v)"
  shows "kept_entry v = None \<longleftrightarrow> \<not> entry_survives (g, v)"
proof (cases v)
  case (PDict tags)
  with assms have "\<not> list_ex tag_raises tags" by simp
  from clean_ifd_returns[OF this, of "[]"] obtain c where c: "clean_ifd tags [] = Inr c" ..
  from clean_ifd_empty[OF c] c PDict show ?thesis by (simp add: kept_entry_def)
qed (simp_all add: kept_entry_def)

lemma sanitized_None_iff:
  "clean_exif_data (PDict d) = PNone \<longleftrightarrow> tree_raises (PDict d) \<or> \<not> list_ex entry_survives d"
proof (cases "tree_raises (PDict d)")
  case True
  then show ?thesis by (simp add: raising_tree_gives_None)
next
  case False
  then have nr: "\<not> list_ex entry_raises d" by simp
  from clean_entries_returns[OF nr, of "[]"] obtain r where r: "clean_entries d [] = Inr r" ..
  from nr have "\<And>p. p \<in> set d \<Longrightarrow> (kept_entry (snd p) = None \<longleftrightarrow> \<not> entry_survives p)"
    using kept_entry_None_iff by (auto simp: list_ex_iff)
  with clean_entries_empty[OF r] have "r = [] \<longleftrightarrow> \<not> list_ex entry_survives d"
    by (auto simp: list_ex_iff)
  with r False show ?thesis unfolding clean_exif_data_eq by simp
qed

lemma stable_tree_fixed: "stable_tree tree \<Longrightarrow> clean_exif_data tree = tree"
proof -
  assume st: "stable_tree tree"
  then obtain d where tree: "tree = PDict d" by (cases tree) simp_all
  with st have d: "d \<noteq> []" "distinct (map fst d)" "list_all stable_entry d" by simp_all
  from d(3) have "\<not> list_ex entry_raises d"
    using stable_entry_kept(2) by (auto simp: list_all_iff list_ex_iff)
  moreover from clean_entries_fixed[OF d(3) d(2), of "[]"] have "clean_entries d [] = Inr d" by simp
  ultimately show ?thesis using tree d(1) unfolding clean_exif_data_eq by simp
qed

lemma sanitized_shape: "clean_exif_data tree = PNone \<or> stable_tree (clean_exif_data tree)"
proof (cases "clean_exif_data tree")
  case (PDict r)
  with sanitized_dict[OF PDict] show ?thesis by simp
qed (auto simp: clean_exif_data_eq split: pyval.splits if_splits sum.splits)

lemma sanitized_PNone: "clean_exif_data PNone = PNone"
  by (simp add: clean_exif_data_def)

lemma entry_lookup_SomeD:
  assumes "entry_lookup tree g = Some v"
  obtains d where "tree = PDict d" "map_of d g = Some v"
  using assms by (auto simp: entry_lookup_def split: pyval.splits)

section \<open>Properties of the JSON-safe conversion\<close>

lemma list_all_dict_of_items:
  "list_all P items \<Longrightarrow> list_all P d \<Longrightarrow> list_all P (dict_of_items items d)"
proof (induction items arbitrary: d)
  case Nil
  then show ?case by simp
next
  case (Cons p items)
  obtain k v where p: "p = (k, v)" by (cases p)
  with Cons.prems have "P (k, v)" "list_all P items" by simp_all
  with Cons.prems(2) have "list_all P (dict_set k v d)" by (simp add: list_all_dict_set)
  with Cons.IH[OF \<open>list_all P items\<close> this] p show ?case by simp
qed

lemma dict_of_items_new:
  "distinct (map fst items) \<Longrightarrow> fst ` set items \<inter> fst ` set d = {} \<Longrightarrow>
   dict_of_items items d = d @ items"
proof (induction items arbitrary: d)
  case Nil
  then show ?case by simp
next
  case (Cons p items)
  obtain k v where p: "p = (k, v)" by (cases p)
  from Cons.prems p have new: "k \<notin> fst ` set d" and nk: "k \<notin> fst ` set items"
    and dd: "distinct (map fst items)" by auto
  from Cons.prems(2) p nk have "fst ` set items \<inter> fst ` set (d @ [(k, v)]) = {}" by auto
  from Cons.IH[OF dd this] new p show ?case by (simp add: dict_set_new)
qed

lemma length_bytes_hex: "length (bytes_hex b) = 2 * length b"
  by (induction b) (simp_all add: bytes_hex_def)

section \<open>Properties of the timestamp resolver\<close>

lemma probe_datetime_mapping:
  assumes "map_of d (KStr n) = Some (PDict tags)"
  shows "probe_datetime d n t = Inr (field_datetime (PDict d) n t)"
proof (cases "map_of tags (KInt t)")
  case None
  with assms show ?thesis
    by (simp add: probe_datetime_def field_datetime_def tag_lookup_def)
next
  case (Some v)
  show ?thesis
  proof (cases v)
    case (PBytes b)
    from bytes_decode_ignore[of b] obtain s where "bytes_decode_utf8 Ignore b = Inr s" ..
    with assms Some PBytes show ?thesis
      by (simp add: probe_datetime_def field_datetime_def tag_lookup_def)
  qed (use assms Some in \<open>simp_all add: probe_datetime_def field_datetime_def tag_lookup_def\<close>)
qed

lemma probe_datetime_absent:
  assumes "map_of d (KStr n) = None"
  shows "probe_datetime d n t = Inr None" and "field_datetime (PDict d) n t = None"
  using assms by (simp_all add: probe_datetime_def field_datetime_def tag_lookup_def)

lemma probe_datetime_basic:
  assumes "map_of d (KStr n) = Some v" and "basic_entry v" and "256 \<le> t"
  shows "\<exists>e. probe_datetime d n t = Inl e" and "field_datetime (PDict d) n t = None"
  using assms by (cases v; simp add: probe_datetime_def field_datetime_def tag_lookup_def)+

lemma stable_tree_entry:
  assumes "stable_tree (PDict d)" and "map_of d g = Some v"
  shows "(\<exists>tags. v = PDict tags) \<or> basic_entry v"
proof -
  from assms(2) have "(g, v) \<in> set d" by (rule map_of_SomeD)
  with assms(1) have "stable_entry (g, v)" by (simp add: list_all_iff)
  then show ?thesis by (cases v) simp_all
qed

lemma resolver_on_stable_tree:
  assumes st: "stable_tree (PDict d)"
    and exif: "\<And>v. map_of d (KStr (ascii ''Exif'')) = Some v \<Longrightarrow> \<exists>tags. v = PDict tags"
  shows "get_creation_datetime_from_exif (PDict d) = first_usable_datetime (PDict d)"
proof -
  let ?E = "ascii ''Exif''" and ?Z = "ascii ''0th''"
  from st have ne: "d \<noteq> []" by simp
  have pe: "probe_datetime d ?E t = Inr (field_datetime (PDict d) ?E t)" for t
  proof (cases "map_of d (KStr ?E)")
    case None
    then show ?thesis using probe_datetime_absent[of d ?E t] by simp
  next
    case (Some v)
    with exif obtain tags where "v = PDict tags" by blast
    with Some show ?thesis by (simp add: probe_datetime_mapping)
  qed
  have pz: "probe_datetime d ?Z DateTime = Inr (field_datetime (PDict d) ?Z DateTime)
            \<or> ((\<exists>e. probe_datetime d ?Z DateTime = Inl e)
                \<and> field_datetime (PDict d) ?Z DateTime = None)"
  proof (cases "map_of d (KStr ?Z)")
    case None
    then show ?thesis using probe_datetime_absent[of d ?Z DateTime] by simp
  next
    case (Some v)
    from stable_tree_entry[OF st Some] show ?thesis
    proof
      assume "\<exists>tags. v = PDict tags"
      with Some show ?thesis by (auto simp: probe_datetime_mapping)
    next
      assume "basic_entry v"
      with Some show ?thesis
        using probe_datetime_basic[of d ?Z v DateTime] by (simp add: DateTime_def)
    qed
  qed
  from pz show ?thesis
    using ne pe
    by (auto simp: get_creation_datetime_from_exif_def first_usable_datetime_def
        datetime_tags_def split: option.splits)
qed

lemma resolver_blocked_by_basic_exif:
  assumes "map_of d (KStr (ascii ''Exif'')) = Some v" and "basic_entry v"
  shows "get_creation_datetime_from_exif (PDict d) = PNone"
proof -
  from probe_datetime_basic(1)[OF assms, of DateTimeOriginal]
  obtain e where "probe_datetime d (ascii ''Exif'') DateTimeOriginal = Inl e"
    by (auto simp: DateTimeOriginal_def)
  then show ?thesis
    by (simp add: get_creation_datetime_from_exif_def datetime_tags_def)
qed

section \<open>Properties of the dict comprehension\<close>

lemma map_of_dict_of_items_at:
  "map_of (dict_of_items items d) x = (map_of d ++ map_of (rev items)) x"
proof (induction items arbitrary: d)
  case Nil
  then show ?case by simp
next
  case (Cons p items)
  obtain k v where p: "p = (k, v)" by (cases p)
  from Cons.IH[of "dict_set k v d"] p show ?case
    by (simp add: map_of_dict_set map_add_def split: option.splits)
qed

lemma map_of_dict_of_items:
  "map_of (dict_of_items items []) = map_of (rev items)"
  using map_of_dict_of_items_at[of items "[]"] by (simp add: fun_eq_iff)

lemma keys_of_dict_set:
  "map fst (dict_set k v d) = (if k \<in> set (map fst d) then map fst d else map fst d @ [k])"
  by (induction d) auto

lemma remdups_skip_known: "k \<in> set ys \<Longrightarrow> remdups (xs @ k # ys) = remdups (xs @ ys)"
  by (induction xs) auto

lemma keys_of_dict_of_items:
  "distinct (map fst d) \<Longrightarrow>
   map fst (dict_of_items items d) = rev (remdups (rev (map fst d @ map fst items)))"
proof (induction items arbitrary: d)
  case Nil
  then show ?case by (simp add: distinct_remdups_id)
next
  case (Cons p items)
  obtain k v where p: "p = (k, v)" by (cases p)
  from Cons.prems have dd: "distinct (map fst (dict_set k v d))" by (rule distinct_dict_set)
  show ?case
  proof (cases "k \<in> set (map fst d)")
    case True
    then have "k \<in> set (rev (map fst d))" by simp
    from remdups_skip_known[OF this, of "rev (map fst items)"] True Cons.IH[OF dd] p
    show ?thesis by (simp add: keys_of_dict_set)
  next
    case False
    with Cons.IH[OF dd] p show ?thesis by (simp add: keys_of_dict_set)
  qed
qed

lemma convert_dict_distinct_keys:
  assumes "distinct (map (\<lambda>p. str_key (fst p)) d)"
  shows "convert_bytes_for_json (PDict d) =
          PDict (map (\<lambda>p. (KStr (str_key (fst p)), convert_bytes_for_json (snd p))) d)"
proof -
  let ?f = "\<lambda>p. (KStr (str_key (fst p)), convert_bytes_for_json (snd p))"
  have feq: "(\<lambda>(k, v). (KStr (str_key k), convert_bytes_for_json v)) = ?f"
    by (auto simp: fun_eq_iff)
  have conv: "convert_bytes_for_json (PDict d) = PDict (dict_of_items (map ?f d) [])"
    by (simp only: convert_bytes_for_json.simps feq)
  have "map fst (map ?f d) = map KStr (map (\<lambda>p. str_key (fst p)) d)"
    by (simp add: comp_def)
  with assms have "distinct (map fst (map ?f d))"
    by (simp add: distinct_map inj_on_def del: map_map)
  from dict_of_items_new[OF this, of "[]"] conv show ?thesis by simp
qed

section \<open>The claims\<close>

text \<open>
  C1. Whatever is passed to \<^verbatim>\<open>clean_exif_data\<close>, no group of the result holds a tag
  whose id is one of 41729, 40961, 40962, 40963, 34665 and 34853.
\<close>

theorem sanitized_has_no_denylisted_tag:
  assumes "clean_exif_data tree = PDict out"
    and "(g, PDict tags) \<in> set out"
    and "(KInt tag_id, v) \<in> set tags"
  shows "tag_id \<notin> {41729, 40961, 40962, 40963, 34665, 34853}"
proof -
  from sanitized_dict[OF assms(1)] have "list_all stable_entry out" by simp
  with assms(2) have "stable_entry (g, PDict tags)" unfolding list_all_iff by blast
  then have "list_all stable_tag tags" by simp
  with assms(3) have "stable_tag (KInt tag_id, v)" unfolding list_all_iff by blast
  then show ?thesis by (simp add: stable_tag_def problematic_tags_def)
qed

theorem sanitized_has_no_denylisted_tag_witness:
  "clean_exif_data
       (PDict [(KStr (ascii ''Exif''),
                PDict [(KInt 40961, PInt 1), (KInt 33434, PTuple [PInt 1, PInt 100]),
                       (KInt 34665, PInt 90)])])
     = PDict [(KStr (ascii ''Exif''), PDict [(KInt 33434, PTuple [PInt 1, PInt 100])])]
   \<and> (33434 :: int) \<notin> {41729, 40961, 40962, 40963, 34665, 34853}"
  using sanitized_has_no_denylisted_tag
    [of "PDict [(KStr (ascii ''Exif''),
                PDict [(KInt 40961, PInt 1), (KInt 33434, PTuple [PInt 1, PInt 100]),
                       (KInt 34665, PInt 90)])]"
        "[(KStr (ascii ''Exif''), PDict [(KInt 33434, PTuple [PInt 1, PInt 100])])]"
        "KStr (ascii ''Exif'')" "[(KInt 33434, PTuple [PInt 1, PInt 100])]"
        33434 "PTuple [PInt 1, PInt 100]"]
  by (simp add: clean_exif_data_def problematic_tags_def int32_range_def)

text \<open>
  C2 (as amended). For every well-formed EXIF tree on which the sanitizer does not raise,
  and every group of it, a tag outside the denylist whose value is an integer is in the
  sanitized tree exactly when the value lies in the range from -2147483648 to 2147483647,
  and it is then there with the same value.
\<close>

theorem integer_tag_kept_iff_in_range:
  assumes "wf_tree tree" and "\<not> tree_raises tree"
    and "tag_lookup tree g k = Some (PInt n)" and "\<not> in_problematic_tags k"
  shows "tag_lookup (clean_exif_data tree) g k =
           (if - 2147483648 \<le> n \<and> n \<le> 2147483647 then Some (PInt n) else None)"
  using sanitized_tag_lookup[OF assms(1-3)] assms(4)
  by (simp add: kept_value_def int32_range_def)

theorem integer_tag_kept_iff_in_range_witness:
  "wf_tree (PDict [(KStr (ascii ''0th''), PDict [(KInt 274, PInt 1), (KInt 4096, PInt 4294967296)])])
   \<and> tag_lookup
        (clean_exif_data
           (PDict [(KStr (ascii ''0th''), PDict [(KInt 274, PInt 1), (KInt 4096, PInt 4294967296)])]))
        (KStr (ascii ''0th'')) (KInt 274) = Some (PInt 1)
   \<and> tag_lookup
        (clean_exif_data
           (PDict [(KStr (ascii ''0th''), PDict [(KInt 274, PInt 1), (KInt 4096, PInt 4294967296)])]))
        (KStr (ascii ''0th'')) (KInt 4096) = None"
  using integer_tag_kept_iff_in_range
      [of "PDict [(KStr (ascii ''0th''), PDict [(KInt 274, PInt 1), (KInt 4096, PInt 4294967296)])]"
          "KStr (ascii ''0th'')" "KInt 274" 1]
    integer_tag_kept_iff_in_range
      [of "PDict [(KStr (ascii ''0th''), PDict [(KInt 274, PInt 1), (KInt 4096, PInt 4294967296)])]"
          "KStr (ascii ''0th'')" "KInt 4096" 4294967296]
  by (simp add: wf_tree_def tag_lookup_def problematic_tags_def)

text \<open>
  The claim as first stated fails: in \<^verbatim>\<open>{'0th': {270: '\ud800', 274: 1}}\<close> the text of
  tag 270 has no UTF-8 encoding, \<^verbatim>\<open>encode\<close> raises, the handler returns
  \<^verbatim>\<open>None\<close>, and tag 274, an integer in range, is not in the result.
\<close>

theorem integer_tag_lost_counterexample:
  "wf_tree (PDict [(KStr (ascii ''0th''), PDict [(KInt 270, PStr [0xD800]), (KInt 274, PInt 1)])])
   \<and> tag_lookup (PDict [(KStr (ascii ''0th''), PDict [(KInt 270, PStr [0xD800]), (KInt 274, PInt 1)])])
        (KStr (ascii ''0th'')) (KInt 274) = Some (PInt 1)
   \<and> \<not> in_problematic_tags (KInt 274)
   \<and> - 2147483648 \<le> (1 :: int) \<and> (1 :: int) \<le> 2147483647
   \<and> clean_exif_data
        (PDict [(KStr (ascii ''0th''), PDict [(KInt 270, PStr [0xD800]), (KInt 274, PInt 1)])]) = PNone
   \<and> tag_lookup
        (clean_exif_data
           (PDict [(KStr (ascii ''0th''), PDict [(KInt 270, PStr [0xD800]), (KInt 274, PInt 1)])]))
        (KStr (ascii ''0th'')) (KInt 274) = None"
  by (simp add: wf_tree_def tag_lookup_def problematic_tags_def clean_exif_data_def
      utf8_encode_cp_def)

text \<open>
  C3 (as amended). For every well-formed EXIF tree on which the sanitizer does not raise,
  and every group of it, a tag outside the denylist whose value is a tuple is in the
  sanitized tree exactly when the tuple has two components, both integers in the range
  from -2147483648 to 2147483647, and it is then there unchanged. In particular
  \<open>(1, 0)\<close> is kept and \<open>(2147483648, 1)\<close> is dropped.
\<close>

theorem pair_tag_kept_iff_two_in_range:
  assumes "wf_tree tree" and "\<not> tree_raises tree"
    and "tag_lookup tree g k = Some (PTuple xs)" and "\<not> in_problematic_tags k"
  shows "tag_lookup (clean_exif_data tree) g k =
           (if length xs = 2
               \<and> (\<forall>x \<in> set xs. isinstance_int x
                      \<and> - 2147483648 \<le> int_value x \<and> int_value x \<le> 2147483647)
            then Some (PTuple xs) else None)"
  using sanitized_tag_lookup[OF assms(1-3)] assms(4)
  by (auto simp add: kept_value_def int32_range_def list_all_iff)

theorem pair_tag_kept_iff_two_in_range_witness:
  "tag_lookup
     (clean_exif_data
        (PDict [(KStr (ascii ''Exif''),
                 PDict [(KInt 37386, PTuple [PInt 1, PInt 0]),
                        (KInt 33437, PTuple [PInt 2147483648, PInt 1])])]))
     (KStr (ascii ''Exif'')) (KInt 37386) = Some (PTuple [PInt 1, PInt 0])
   \<and> tag_lookup
     (clean_exif_data
        (PDict [(KStr (ascii ''Exif''),
                 PDict [(KInt 37386, PTuple [PInt 1, PInt 0]),
                        (KInt 33437, PTuple [PInt 2147483648, PInt 1])])]))
     (KStr (ascii ''Exif'')) (KInt 33437) = None"
  using pair_tag_kept_iff_two_in_range
      [of "PDict [(KStr (ascii ''Exif''),
                 PDict [(KInt 37386, PTuple [PInt 1, PInt 0]),
                        (KInt 33437, PTuple [PInt 2147483648, PInt 1])])]"
          "KStr (ascii ''Exif'')" "KInt 37386" "[PInt 1, PInt 0]"]
    pair_tag_kept_iff_two_in_range
      [of "PDict [(KStr (ascii ''Exif''),
                 PDict [(KInt 37386, PTuple [PInt 1, PInt 0]),
                        (KInt 33437, PTuple [PInt 2147483648, PInt 1])])]"
          "KStr (ascii ''Exif'')" "KInt 33437" "[PInt 2147483648, PInt 1]"]
  by (simp add: wf_tree_def tag_lookup_def problematic_tags_def)

text \<open>
  The claim as first stated fails: in \<^verbatim>\<open>{'Exif': {37386: (1, 0), 37510: '\udc80'}}\<close>
  the text of tag 37510 makes the sanitizer return \<^verbatim>\<open>None\<close>, so the pair of tag
  37386 is not in the result.
\<close>

theorem pair_tag_lost_counterexample:
  "wf_tree (PDict [(KStr (ascii ''Exif''),
                   PDict [(KInt 37386, PTuple [PInt 1, PInt 0]), (KInt 37510, PStr [0xDC80])])])
   \<and> tag_lookup
        (PDict [(KStr (ascii ''Exif''),
                 PDict [(KInt 37386, PTuple [PInt 1, PInt 0]), (KInt 37510, PStr [0xDC80])])])
        (KStr (ascii ''Exif'')) (KInt 37386) = Some (PTuple [PInt 1, PInt 0])
   \<and> \<not> in_problematic_tags (KInt 37386)
   \<and> clean_exif_data
        (PDict [(KStr (ascii ''Exif''),
                 PDict [(KInt 37386, PTuple [PInt 1, PInt 0]), (KInt 37510, PStr [0xDC80])])])
      = PNone
   \<and> tag_lookup
        (clean_exif_data
           (PDict [(KStr (ascii ''Exif''),
                    PDict [(KInt 37386, PTuple [PInt 1, PInt 0]), (KInt 37510, PStr [0xDC80])])]))
        (KStr (ascii ''Exif'')) (KInt 37386) = None"
  by (simp add: wf_tree_def tag_lookup_def problematic_tags_def clean_exif_data_def
      utf8_encode_cp_def int32_range_def)

text \<open>
  C4 (as amended). The resolver returns \<^verbatim>\<open>None\<close> for \<^verbatim>\<open>None\<close>. Given a sanitized
  EXIF tree whose \<open>Exif\<close> entry, when there is one, is a group, it returns the first
  usable string among \<open>DateTimeOriginal\<close> and \<open>DateTimeDigitized\<close> of the \<open>Exif\<close>
  group and \<open>DateTime\<close> of the \<open>0th\<close> group, in this order, and \<^verbatim>\<open>None\<close> when
  there is none: a field is usable when it is a blob or text whose decoded, stripped string
  is neither empty nor \<open>0000:00:00 00:00:00\<close>. Given a sanitized tree whose \<open>Exif\<close>
  entry is not a group, it returns \<^verbatim>\<open>None\<close>.
\<close>

theorem resolver_returns_first_usable_field:
  assumes "tree = clean_exif_data raw"
  shows "get_creation_datetime_from_exif PNone = PNone
    \<and> ((\<forall>v. entry_lookup tree (KStr (ascii ''Exif'')) = Some v \<longrightarrow> (\<exists>tags. v = PDict tags))
          \<longrightarrow> get_creation_datetime_from_exif tree = first_usable_datetime tree)
    \<and> ((\<exists>v. entry_lookup tree (KStr (ascii ''Exif'')) = Some v \<and> (\<forall>tags. v \<noteq> PDict tags))
          \<longrightarrow> get_creation_datetime_from_exif tree = PNone)"
proof (intro conjI impI)
  show "get_creation_datetime_from_exif PNone = PNone"
    by (simp add: get_creation_datetime_from_exif_def)
next
  assume exif: "\<forall>v. entry_lookup tree (KStr (ascii ''Exif'')) = Some v \<longrightarrow> (\<exists>tags. v = PDict tags)"
  from sanitized_shape[of raw] assms have "tree = PNone \<or> stable_tree tree" by simp
  then show "get_creation_datetime_from_exif tree = first_usable_datetime tree"
  proof
    assume "tree = PNone"
    then show ?thesis
      by (simp add: get_creation_datetime_from_exif_def first_usable_datetime_def
          field_datetime_def tag_lookup_def)
  next
    assume st: "stable_tree tree"
    then obtain d where tree: "tree = PDict d" by (cases tree) simp_all
    with exif have "\<And>v. map_of d (KStr (ascii ''Exif'')) = Some v \<Longrightarrow> \<exists>tags. v = PDict tags"
      by (simp add: entry_lookup_def)
    with st tree show ?thesis using resolver_on_stable_tree[of d] by simp
  qed
next
  assume "\<exists>v. entry_lookup tree (KStr (ascii ''Exif'')) = Some v \<and> (\<forall>tags. v \<noteq> PDict tags)"
  then obtain v where v: "entry_lookup tree (KStr (ascii ''Exif'')) = Some v"
    and nd: "\<forall>tags. v \<noteq> PDict tags" by blast
  from v obtain d where tree: "tree = PDict d" and dv: "map_of d (KStr (ascii ''Exif'')) = Some v"
    by (rule entry_lookup_SomeD)
  from sanitized_shape[of raw] assms tree have "stable_tree (PDict d)" by auto
  from stable_tree_entry[OF this dv] nd have "basic_entry v" by blast
  with dv tree show "get_creation_datetime_from_exif tree = PNone"
    by (simp add: resolver_blocked_by_basic_exif)
qed

theorem resolver_returns_first_usable_field_witness:
  "get_creation_datetime_from_exif
     (clean_exif_data
        (PDict [(KStr (ascii ''0th''), PDict [(KInt 306, PBytes ''2021:05:05 05:05:05'')]),
            (KStr (ascii ''Exif''), PDict [(KInt 36867, PBytes ''2020:01:01 10:00:00'')])]))
     = PStr (ascii ''2020:01:01 10:00:00'')
   \<and> get_creation_datetime_from_exif
     (clean_exif_data
        (PDict [(KStr (ascii ''0th''), PDict [(KInt 306, PBytes ''0000:00:00 00:00:00'')])]))
     = PNone"
  using resolver_returns_first_usable_field
      [of "clean_exif_data
        (PDict [(KStr (ascii ''0th''), PDict [(KInt 306, PBytes ''2021:05:05 05:05:05'')]),
            (KStr (ascii ''Exif''), PDict [(KInt 36867, PBytes ''2020:01:01 10:00:00'')])])"
          "PDict [(KStr (ascii ''0th''), PDict [(KInt 306, PBytes ''2021:05:05 05:05:05'')]),
            (KStr (ascii ''Exif''), PDict [(KInt 36867, PBytes ''2020:01:01 10:00:00'')])]"]
    resolver_returns_first_usable_field
      [of "clean_exif_data
        (PDict [(KStr (ascii ''0th''), PDict [(KInt 306, PBytes ''0000:00:00 00:00:00'')])])"
          "PDict [(KStr (ascii ''0th''), PDict [(KInt 306, PBytes ''0000:00:00 00:00:00'')])]"]
  by (simp add: clean_exif_data_def problematic_tags_def bytes_decode_utf8_def utf8_step_def ascii_def
      entry_lookup_def first_usable_datetime_def field_datetime_def tag_lookup_def
      DateTimeOriginal_def DateTimeDigitized_def DateTime_def str_strip_def is_space_def
      usable_datetime_def placeholder_datetime_def)

text \<open>
  The claim as first stated fails: \<^verbatim>\<open>{'Exif': b'x', '0th': {306: b'2021:05:05 05:05:05'}}\<close>
  is a sanitized tree (the sanitizer returns it as it is) with a usable \<open>DateTime\<close>, but
  \<^verbatim>\<open>36867 in b'x'\<close> raises, the handler ends the search, and the resolver returns
  \<^verbatim>\<open>None\<close>.
\<close>

theorem resolver_blocked_counterexample:
  "clean_exif_data
     (PDict [(KStr (ascii ''Exif''), PBytes ''x''),
            (KStr (ascii ''0th''), PDict [(KInt 306, PBytes ''2021:05:05 05:05:05'')])])
     = PDict [(KStr (ascii ''Exif''), PBytes ''x''),
            (KStr (ascii ''0th''), PDict [(KInt 306, PBytes ''2021:05:05 05:05:05'')])]
   \<and> first_usable_datetime
     (PDict [(KStr (ascii ''Exif''), PBytes ''x''),
            (KStr (ascii ''0th''), PDict [(KInt 306, PBytes ''2021:05:05 05:05:05'')])])
     = PStr (ascii ''2021:05:05 05:05:05'')
   \<and> get_creation_datetime_from_exif
     (PDict [(KStr (ascii ''Exif''), PBytes ''x''),
            (KStr (ascii ''0th''), PDict [(KInt 306, PBytes ''2021:05:05 05:05:05'')])])
     = PNone"
  by (simp add: clean_exif_data_def problematic_tags_def bytes_decode_utf8_def utf8_step_def ascii_def
      entry_lookup_def first_usable_datetime_def field_datetime_def tag_lookup_def
      DateTimeOriginal_def DateTimeDigitized_def DateTime_def str_strip_def is_space_def
      usable_datetime_def placeholder_datetime_def
      get_creation_datetime_from_exif_def datetime_tags_def probe_datetime_def)

text \<open>
  C5. For every value, \<^verbatim>\<open>convert_bytes_for_json\<close> returns: for a blob that decodes as
  UTF-8, the decoded text (the blob \<open>hello\<close> gives the text \<open>hello\<close>); for a blob that
  does not, the text \<open><bytes:\<close>, the length of the blob, \<open>:\<close>, the first 50
  characters of its hexadecimal form, \<open>...\<close> when that form is longer than 50
  characters, and \<open>>\<close>; integers, floats, text, booleans and null unchanged; for every
  dict, the dict whose keys are the stringified keys, in the order in which they first
  occur, each with the converted value of the last item that has this stringified key; a
  list or tuple as the list of its converted items; any other object as its
  \<^verbatim>\<open>str()\<close>.
\<close>

theorem convert_bytes_for_json_cases:
  "(bytes_decode_utf8 Strict b = Inr s \<longrightarrow> convert_bytes_for_json (PBytes b) = PStr s)
   \<and> convert_bytes_for_json (PBytes ''hello'') = PStr (ascii ''hello'')
   \<and> (bytes_decode_utf8 Strict b = Inl e \<longrightarrow>
        convert_bytes_for_json (PBytes b) =
          PStr (ascii ''<bytes:'' @ str_nat (length b) @ ascii '':'' @ take 50 (bytes_hex b)
                @ (if 50 < 2 * length b then ascii ''...'' else []) @ ascii ''>''))
   \<and> convert_bytes_for_json (PInt i) = PInt i
   \<and> convert_bytes_for_json (PFloat w) = PFloat w
   \<and> convert_bytes_for_json (PStr u) = PStr u
   \<and> convert_bytes_for_json (PBool t) = PBool t
   \<and> convert_bytes_for_json PNone = PNone
   \<and> (\<exists>r. convert_bytes_for_json (PDict d) = PDict r
          \<and> map fst r = rev (remdups (rev (map (\<lambda>p. KStr (str_key (fst p))) d)))
          \<and> map_of r =
              map_of (rev (map (\<lambda>p. (KStr (str_key (fst p)), convert_bytes_for_json (snd p))) d)))
   \<and> convert_bytes_for_json (PList xs) = PList (map convert_bytes_for_json xs)
   \<and> convert_bytes_for_json (PTuple xs) = PList (map convert_bytes_for_json xs)
   \<and> convert_bytes_for_json (PObj r') = PStr r'"
proof -
  have hello: "convert_bytes_for_json (PBytes ''hello'') = PStr (ascii ''hello'')"
    by (simp add: bytes_decode_utf8_def utf8_step_def ascii_def)
  let ?f = "\<lambda>p. (KStr (str_key (fst p)), convert_bytes_for_json (snd p))"
  have dict: "\<exists>r. convert_bytes_for_json (PDict d) = PDict r
          \<and> map fst r = rev (remdups (rev (map (\<lambda>p. KStr (str_key (fst p))) d)))
          \<and> map_of r = map_of (rev (map ?f d))"
  proof -
    have feq: "(\<lambda>(k, v). (KStr (str_key k), convert_bytes_for_json v)) = ?f"
      by (auto simp: fun_eq_iff)
    have conv: "convert_bytes_for_json (PDict d) = PDict (dict_of_items (map ?f d) [])"
      by (simp only: convert_bytes_for_json.simps feq)
    have keys: "map fst (dict_of_items (map ?f d) []) =
                  rev (remdups (rev (map (\<lambda>p. KStr (str_key (fst p))) d)))"
      using keys_of_dict_of_items[of "[]" "map ?f d"] by (simp add: comp_def)
    from conv keys map_of_dict_of_items[of "map ?f d"] show ?thesis by blast
  qed
  have bytes_ok: "bytes_decode_utf8 Strict b = Inr s \<longrightarrow> convert_bytes_for_json (PBytes b) = PStr s"
    by simp
  have bytes_bad: "bytes_decode_utf8 Strict b = Inl e \<longrightarrow>
        convert_bytes_for_json (PBytes b) =
          PStr (ascii ''<bytes:'' @ str_nat (length b) @ ascii '':'' @ take 50 (bytes_hex b)
                @ (if 50 < 2 * length b then ascii ''...'' else []) @ ascii ''>'')"
    by (simp add: bytes_placeholder_def length_bytes_hex)
  from hello dict bytes_ok bytes_bad show ?thesis by simp
qed

theorem convert_bytes_for_json_cases_witness:
  "convert_bytes_for_json (PBytes [CHR 0xC3, CHR 0xA9]) = PStr [0xE9]
   \<and> convert_bytes_for_json (PBytes [CHR 0xFF, CHR 0x00, CHR 0xAB])
       = PStr (ascii ''<bytes:3:ff00ab>'')
   \<and> convert_bytes_for_json (PDict [(KInt 1, PBytes ''a''), (KStr (ascii ''k''), PNone)])
       = PDict [(KStr (ascii ''1''), PStr (ascii ''a'')), (KStr (ascii ''k''), PNone)]
   \<and> convert_bytes_for_json (PDict [(KInt 1, PBytes ''a''), (KStr (ascii ''1''), PBytes ''b'')])
       = PDict [(KStr (ascii ''1''), PStr (ascii ''b''))]"
  using convert_bytes_for_json_cases[of "[CHR 0xC3, CHR 0xA9]" "[0xE9]"]
    convert_bytes_for_json_cases[of "[CHR 0xFF, CHR 0x00, CHR 0xAB]" _ UnicodeDecodeError]
    convert_bytes_for_json_cases
      [where d = "[(KInt 1, PBytes ''a''), (KStr (ascii ''1''), PBytes ''b'')]"]
  by (simp add: bytes_decode_utf8_def utf8_step_def is_continuation_def bytes_hex_def
      hex_digit_def str_int_def ascii_def)

text \<open>
  C6 (as amended). The sanitizer is idempotent: sanitizing its result again changes
  nothing. A tree sanitizes to an equal tree exactly when it is \<^verbatim>\<open>None\<close> or it is
  not empty, has no key twice, each of its groups is a non-empty dict of tags outside the
  denylist whose values are blobs, integers in range or pairs of integers in range, and
  each of its other entries is a blob, text or an integer.
\<close>

theorem sanitizer_idempotent_and_fixed_points:
  "clean_exif_data (clean_exif_data tree) = clean_exif_data tree
   \<and> (clean_exif_data tree = tree \<longleftrightarrow> tree = PNone \<or> stable_tree tree)"
proof
  show "clean_exif_data (clean_exif_data tree) = clean_exif_data tree"
    using sanitized_shape[of tree] stable_tree_fixed sanitized_PNone by auto
  show "clean_exif_data tree = tree \<longleftrightarrow> tree = PNone \<or> stable_tree tree"
    using sanitized_shape[of tree] stable_tree_fixed[of tree] sanitized_PNone by auto
qed

theorem sanitizer_idempotent_and_fixed_points_witness:
  "clean_exif_data
     (PDict [(KStr (ascii ''0th''), PDict [(KInt 271, PBytes ''Acme''), (KInt 274, PInt 1)]),
             (KStr (ascii ''Exif''), PDict [(KInt 33434, PTuple [PInt 1, PInt 250])]),
             (KStr (ascii ''thumbnail''), PBytes [CHR 0xFF, CHR 0xD8])])
   = PDict [(KStr (ascii ''0th''), PDict [(KInt 271, PBytes ''Acme''), (KInt 274, PInt 1)]),
            (KStr (ascii ''Exif''), PDict [(KInt 33434, PTuple [PInt 1, PInt 250])]),
            (KStr (ascii ''thumbnail''), PBytes [CHR 0xFF, CHR 0xD8])]"
  using sanitizer_idempotent_and_fixed_points
    [of "PDict [(KStr (ascii ''0th''), PDict [(KInt 271, PBytes ''Acme''), (KInt 274, PInt 1)]),
             (KStr (ascii ''Exif''), PDict [(KInt 33434, PTuple [PInt 1, PInt 250])]),
             (KStr (ascii ''thumbnail''), PBytes [CHR 0xFF, CHR 0xD8])]"]
  by (simp add: stable_tag_def problematic_tags_def int32_range_def ascii_def)

text \<open>
  The second half of the claim as first stated fails. The text \<^verbatim>\<open>'Acme'\<close> is valid and
  encodable, but \<^verbatim>\<open>{'0th': {271: 'Acme'}}\<close> sanitizes to
  \<^verbatim>\<open>{'0th': {271: b'Acme'}}\<close>: text becomes a blob. And
  \<^verbatim>\<open>{'0th': {271: b'Acme'}, 'GPS': {}}\<close>, which holds no invalid field, loses its empty
  group.
\<close>

theorem text_or_empty_group_not_preserved_counterexample:
  "\<not> in_problematic_tags (KInt 271)
   \<and> str_encode_utf8 (ascii ''Acme'') = Inr ''Acme''
   \<and> clean_exif_data (PDict [(KStr (ascii ''0th''), PDict [(KInt 271, PStr (ascii ''Acme''))])])
       = PDict [(KStr (ascii ''0th''), PDict [(KInt 271, PBytes ''Acme'')])]
   \<and> clean_exif_data (PDict [(KStr (ascii ''0th''), PDict [(KInt 271, PStr (ascii ''Acme''))])])
       \<noteq> PDict [(KStr (ascii ''0th''), PDict [(KInt 271, PStr (ascii ''Acme''))])]
   \<and> clean_exif_data
        (PDict [(KStr (ascii ''0th''), PDict [(KInt 271, PBytes ''Acme'')]),
                (KStr (ascii ''GPS''), PDict [])])
       = PDict [(KStr (ascii ''0th''), PDict [(KInt 271, PBytes ''Acme'')])]
   \<and> clean_exif_data
        (PDict [(KStr (ascii ''0th''), PDict [(KInt 271, PBytes ''Acme'')]),
                (KStr (ascii ''GPS''), PDict [])])
       \<noteq> PDict [(KStr (ascii ''0th''), PDict [(KInt 271, PBytes ''Acme'')]),
                (KStr (ascii ''GPS''), PDict [])]"
  by code_simp

text \<open>
  C7 (as amended). \<^verbatim>\<open>clean_exif_data\<close> returns \<^verbatim>\<open>None\<close> exactly when its argument
  is not a dict (\<^verbatim>\<open>None\<close> among others), or the sanitizer raises on it, or no entry
  survives the filter (an empty dict among others). No group of a result is empty, and on
  a well-formed tree on which the sanitizer does not raise, a group in which no tag
  survives is not in the result, and an entry that is not a dict is in the result,
  unchanged, if it is a blob, text or an integer, and is not in the result otherwise.
\<close>

theorem none_iff_raises_or_nothing_survives:
  "(clean_exif_data tree = PNone \<longleftrightarrow>
      (case tree of PDict d \<Rightarrow> tree_raises tree \<or> \<not> list_ex entry_survives d | _ \<Rightarrow> True))
   \<and> (clean_exif_data tree = PDict out \<longrightarrow> (g', PDict c) \<in> set out \<longrightarrow> c \<noteq> [])
   \<and> (wf_tree tree \<longrightarrow> \<not> tree_raises tree \<longrightarrow>
        (entry_lookup tree g = Some (PDict tags) \<longrightarrow> \<not> list_ex tag_survives tags \<longrightarrow>
           entry_lookup (clean_exif_data tree) g = None)
      \<and> (entry_lookup tree h = Some v \<longrightarrow> (\<forall>ts. v \<noteq> PDict ts) \<longrightarrow>
           entry_lookup (clean_exif_data tree) h = (if basic_entry v then Some v else None)))"
proof (intro conjI impI)
  show "clean_exif_data tree = PNone \<longleftrightarrow>
      (case tree of PDict d \<Rightarrow> tree_raises tree \<or> \<not> list_ex entry_survives d | _ \<Rightarrow> True)"
  proof (cases tree)
    case (PDict d)
    with sanitized_None_iff[of d] show ?thesis by simp
  qed (simp_all add: clean_exif_data_def)
next
  assume "clean_exif_data tree = PDict out" and "(g', PDict c) \<in> set out"
  with sanitized_dict[of tree out] have "stable_entry (g', PDict c)"
    unfolding list_all_iff by blast
  then show "c \<noteq> []" by simp
next
  assume wf: "wf_tree tree" and nr: "\<not> tree_raises tree"
    and g: "entry_lookup tree g = Some (PDict tags)" and none: "\<not> list_ex tag_survives tags"
  from g obtain d where tree: "tree = PDict d" and dg: "map_of d g = Some (PDict tags)"
    by (rule entry_lookup_SomeD)
  from wf tree have dd: "distinct (map fst d)" by (simp add: wf_tree_def)
  from dg have "(g, PDict tags) \<in> set d" by (rule map_of_SomeD)
  with nr tree have "\<not> entry_raises (g, PDict tags)" by (auto simp: list_ex_iff)
  with none have "kept_entry (PDict tags) = None"
    using kept_entry_None_iff[of g "PDict tags"] by simp
  with sanitized_entry_lookup[OF dd, of g] nr tree dg
  show "entry_lookup (clean_exif_data tree) g = None" by simp
next
  assume wf: "wf_tree tree" and nr: "\<not> tree_raises tree"
    and h: "entry_lookup tree h = Some v" and nd: "\<forall>ts. v \<noteq> PDict ts"
  from h obtain d where tree: "tree = PDict d" and dh: "map_of d h = Some v"
    by (rule entry_lookup_SomeD)
  from wf tree have dd: "distinct (map fst d)" by (simp add: wf_tree_def)
  from nd have "kept_entry v = (if basic_entry v then Some v else None)"
    by (cases v) (simp_all add: kept_entry_def)
  with sanitized_entry_lookup[OF dd, of h] nr tree dh
  show "entry_lookup (clean_exif_data tree) h = (if basic_entry v then Some v else None)"
    by simp
qed

theorem none_iff_raises_or_nothing_survives_witness:
  "clean_exif_data
     (PDict [(KStr (ascii ''0th''), PDict [(KInt 271, PBytes ''Acme'')]),
             (KStr (ascii ''GPS''), PDict [(KInt 34853, PInt 5), (KInt 2, PFloat 0)]),
             (KStr (ascii ''thumbnail''), PBytes [CHR 0xFF, CHR 0xD8]),
             (KStr (ascii ''1st''), PNone)]) \<noteq> PNone
   \<and> entry_lookup
       (clean_exif_data
         (PDict [(KStr (ascii ''0th''), PDict [(KInt 271, PBytes ''Acme'')]),
                 (KStr (ascii ''GPS''), PDict [(KInt 34853, PInt 5), (KInt 2, PFloat 0)]),
                 (KStr (ascii ''thumbnail''), PBytes [CHR 0xFF, CHR 0xD8]),
                 (KStr (ascii ''1st''), PNone)]))
       (KStr (ascii ''GPS'')) = None
   \<and> entry_lookup
       (clean_exif_data
         (PDict [(KStr (ascii ''0th''), PDict [(KInt 271, PBytes ''Acme'')]),
                 (KStr (ascii ''GPS''), PDict [(KInt 34853, PInt 5), (KInt 2, PFloat 0)]),
                 (KStr (ascii ''thumbnail''), PBytes [CHR 0xFF, CHR 0xD8]),
                 (KStr (ascii ''1st''), PNone)]))
       (KStr (ascii ''thumbnail'')) = Some (PBytes [CHR 0xFF, CHR 0xD8])"
  using none_iff_raises_or_nothing_survives
    [where tree = "PDict [(KStr (ascii ''0th''), PDict [(KInt 271, PBytes ''Acme'')]),
                 (KStr (ascii ''GPS''), PDict [(KInt 34853, PInt 5), (KInt 2, PFloat 0)]),
                 (KStr (ascii ''thumbnail''), PBytes [CHR 0xFF, CHR 0xD8]),
                 (KStr (ascii ''1st''), PNone)]"
       and g = "KStr (ascii ''GPS'')" and tags = "[(KInt 34853, PInt 5), (KInt 2, PFloat 0)]"
       and h = "KStr (ascii ''thumbnail'')" and v = "PBytes [CHR 0xFF, CHR 0xD8]"]
  by (simp add: wf_tree_def entry_lookup_def tag_survives_def kept_value_def
      problematic_tags_def ascii_def)

text \<open>
  The claim as first stated fails: \<^verbatim>\<open>{'0th': {270: '\ud800', 271: b'Acme'}}\<close> is not
  empty and its blob passes the filter, yet the result is \<^verbatim>\<open>None\<close>, because the
  text of tag 270 makes \<^verbatim>\<open>encode\<close> raise.
\<close>

theorem none_although_something_survives_counterexample:
  "py_truthy (PDict [(KStr (ascii ''0th''), PDict [(KInt 270, PStr [0xD800]), (KInt 271, PBytes ''Acme'')])])
   \<and> tag_survives (KInt 271, PBytes ''Acme'')
   \<and> list_ex entry_survives
        [(KStr (ascii ''0th''), PDict [(KInt 270, PStr [0xD800]), (KInt 271, PBytes ''Acme'')])]
   \<and> clean_exif_data
        (PDict [(KStr (ascii ''0th''), PDict [(KInt 270, PStr [0xD800]), (KInt 271, PBytes ''Acme'')])])
      = PNone"
  by (simp add: tag_survives_def kept_value_def problematic_tags_def clean_exif_data_def
      utf8_encode_cp_def)



text \<open>
  C9 (as amended). For every well-formed EXIF tree on which the sanitizer does not raise,
  and every tag outside the denylist whose value is a blob: the permissive UTF-8 decode of
  the blob succeeds (it cannot fail, so no blob is dropped by the probe), and the tag is in
  the sanitized tree with the same blob.
\<close>

theorem blob_tag_kept_unchanged:
  assumes "wf_tree tree" and "\<not> tree_raises tree"
    and "tag_lookup tree g k = Some (PBytes b)" and "\<not> in_problematic_tags k"
  shows "(\<exists>s. bytes_decode_utf8 Ignore b = Inr s)
         \<and> tag_lookup (clean_exif_data tree) g k = Some (PBytes b)"
  using sanitized_tag_lookup[OF assms(1-3)] assms(4) bytes_decode_ignore[of b]
  by (simp add: kept_value_def)

theorem blob_tag_kept_unchanged_witness:
  "tag_lookup
     (clean_exif_data
        (PDict [(KStr (ascii ''0th''),
                 PDict [(KInt 271, PBytes ''Acme''), (KInt 272, PBytes [CHR 0xFF, CHR 0xFE])])]))
     (KStr (ascii ''0th'')) (KInt 272) = Some (PBytes [CHR 0xFF, CHR 0xFE])
   \<and> (\<exists>s. bytes_decode_utf8 Ignore [CHR 0xFF, CHR 0xFE] = Inr s)"
  using blob_tag_kept_unchanged
      [of "PDict [(KStr (ascii ''0th''),
                 PDict [(KInt 271, PBytes ''Acme''), (KInt 272, PBytes [CHR 0xFF, CHR 0xFE])])]"
          "KStr (ascii ''0th'')" "KInt 272" "[CHR 0xFF, CHR 0xFE]"]
  by (simp add: wf_tree_def tag_lookup_def problematic_tags_def)

text \<open>
  The claim as first stated fails: in \<^verbatim>\<open>{'0th': {271: b'Acme', 305: 'A\udfff'}}\<close> the
  decode of \<^verbatim>\<open>b'Acme'\<close> succeeds, but the text of tag 305 makes the sanitizer return
  \<^verbatim>\<open>None\<close>, so tag 271 is not kept.
\<close>

theorem blob_tag_lost_counterexample:
  "wf_tree (PDict [(KStr (ascii ''0th''),
                   PDict [(KInt 271, PBytes ''Acme''), (KInt 305, PStr [0x41, 0xDFFF])])])
   \<and> tag_lookup
        (PDict [(KStr (ascii ''0th''),
                 PDict [(KInt 271, PBytes ''Acme''), (KInt 305, PStr [0x41, 0xDFFF])])])
        (KStr (ascii ''0th'')) (KInt 271) = Some (PBytes ''Acme'')
   \<and> \<not> in_problematic_tags (KInt 271)
   \<and> bytes_decode_utf8 Ignore ''Acme'' = Inr (ascii ''Acme'')
   \<and> clean_exif_data
        (PDict [(KStr (ascii ''0th''),
                 PDict [(KInt 271, PBytes ''Acme''), (KInt 305, PStr [0x41, 0xDFFF])])])
      = PNone
   \<and> tag_lookup
        (clean_exif_data
           (PDict [(KStr (ascii ''0th''),
                    PDict [(KInt 271, PBytes ''Acme''), (KInt 305, PStr [0x41, 0xDFFF])])]))
        (KStr (ascii ''0th'')) (KInt 271) = None"
  by (simp add: wf_tree_def tag_lookup_def problematic_tags_def clean_exif_data_def
      utf8_encode_cp_def bytes_decode_utf8_def utf8_step_def ascii_def)

text \<open>
  C10. For every value, the result of \<^verbatim>\<open>convert_bytes_for_json\<close> holds no blob at any
  depth: it is null, a boolean, an integer, a float or text, or a list of such results, or
  a dict from text keys to such results.
\<close>

theorem converted_value_is_json_safe: "json_safe (convert_bytes_for_json obj)"
proof (induction obj rule: convert_bytes_for_json.induct)
  case (1 obj)
  then show ?case by (simp split: sum.splits)
next
  case (2 obj)
  have "list_all (\<lambda>p. (case fst p of KStr s \<Rightarrow> True | KInt i \<Rightarrow> False) \<and> json_safe (snd p))
          (map (\<lambda>(k, v). (KStr (str_key k), convert_bytes_for_json v)) obj)"
    using 2 by (auto simp: list_all_iff)
  then show ?case by (simp add: list_all_dict_of_items)
next
  case (3 obj)
  then show ?case by (simp add: list_all_iff)
next
  case (4 obj)
  then show ?case by (simp add: list_all_iff)
qed simp_all

theorem converted_value_is_json_safe_witness:
  "json_safe
     (convert_bytes_for_json
        (PDict [(KInt 5, PBytes [CHR 0xFF, CHR 0xFE]),
                (KStr (ascii ''dpi''), PTuple [PInt 72, PBytes ''x'', PObj (ascii ''obj'')])]))
   \<and> convert_bytes_for_json
        (PDict [(KInt 5, PBytes [CHR 0xFF, CHR 0xFE]),
                (KStr (ascii ''dpi''), PTuple [PInt 72, PBytes ''x'', PObj (ascii ''obj'')])])
      = PDict [(KStr (ascii ''5''), PStr (ascii ''<bytes:2:fffe>'')),
               (KStr (ascii ''dpi''), PList [PInt 72, PStr (ascii ''x''), PStr (ascii ''obj'')])]"
  using converted_value_is_json_safe
    [of "PDict [(KInt 5, PBytes [CHR 0xFF, CHR 0xFE]),
                (KStr (ascii ''dpi''), PTuple [PInt 72, PBytes ''x'', PObj (ascii ''obj'')])]"]
  by (simp add: bytes_decode_utf8_def utf8_step_def bytes_placeholder_def bytes_hex_def
      hex_digit_def str_int_def ascii_def)

end
